theory Spec2Isabelle
  imports Complex_Main "HOL-Library.Word" "HOL-Library.List_Lexorder"
begin

unbundle bit_operations_syntax

section \<open>Errors raised by the two source files\<close>

text \<open>
  Every exception that the modelled code can raise is a constructor here.
  \<^item> \<open>ValueError\<close>: numpy refuses a reshape or a broadcast.
  \<^item> \<open>AssertionError\<close>: the \<^verbatim>\<open>assert self.buffer is not None\<close> of \<^verbatim>\<open>handle_buffer\<close>.
  \<^item> \<open>AttributeError\<close>: a method is called on \<^verbatim>\<open>None\<close>, or an attribute that
    \<^verbatim>\<open>pre_start_capture\<close> creates is read before it exists.
  \<^item> \<open>MemoryFault\<close>: an index outside an array inside the compiled kernel
    \<^verbatim>\<open>process_buffer\<close>, which runs without bounds checks; the source gives such an access no
    meaning, the model stops with this value.
  \<^item> \<open>TypingError\<close>: the compiled kernel is called with \<^verbatim>\<open>None\<close> in place of an array.
  \<^item> \<open>IndexError\<close>: a Python string index out of range.
  \<^item> \<open>InvalidVersion s\<close>: \<^verbatim>\<open>version.parse(s)\<close> rejected the string \<open>s\<close>.
  \<^item> \<open>UnsupportedFirmware required actual\<close>: the \<^verbatim>\<open>RuntimeError\<close> of
    \<^verbatim>\<open>_set_trigger_holdoff\<close>, whose message carries the required minimum version and the
    firmware value found (\<open>None\<close> when that value is not a string).
\<close>

datatype error =
    ValueError
  | AssertionError
  | AttributeError
  | MemoryFault
  | TypingError
  | IndexError
  | InvalidVersion string
  | UnsupportedFirmware string "string option"

section \<open>raw\_acq\_ctrl.py: the acquisition controller\<close>

subsection \<open>Arrays and the store\<close>

text \<open>
  numpy arrays of dtype float64 are lists of \<open>real\<close>: the rounding of IEEE arithmetic is
  not modelled, every operation is exact. The raw buffer \<^verbatim>\<open>self.buffer\<close> is one-dimensional and
  is reached only through the controller, so the controller holds it by value. The two
  channel buffers \<^verbatim>\<open>self.cha_A_buffer\<close> and \<^verbatim>\<open>self.cha_B_buffer\<close> are two-dimensional and
  are handed out to callers when \<^verbatim>\<open>copy=False\<close>, so they live in a store and the controller
  and the callers hold addresses.
\<close>

type_synonym addr = nat

text \<open>
  A two-dimensional array is its shape and its elements in row-major order, as numpy stores
  a freshly allocated array: element \<open>[r, s]\<close> is \<open>flat ! (r * ncols + s)\<close>.
\<close>

record array2 =
  nrows :: nat
  ncols :: nat
  flat :: "real list"

record memory =
  cells :: "addr \<Rightarrow> array2 option"
  next_free :: addr

definition empty_memory :: memory where
  "empty_memory = \<lparr>cells = (\<lambda>_. None), next_free = 0\<rparr>"

definition alloc :: "array2 \<Rightarrow> memory \<Rightarrow> addr \<times> memory" where
  "alloc arr m =
     (next_free m, m\<lparr>cells := (cells m)(next_free m \<mapsto> arr), next_free := Suc (next_free m)\<rparr>)"

definition store :: "addr \<Rightarrow> array2 \<Rightarrow> memory \<Rightarrow> memory" where
  "store a arr m = m\<lparr>cells := (cells m)(a \<mapsto> arr)\<rparr>"

text \<open>Reading element \<open>[r, s]\<close> of a two-dimensional array.\<close>

definition at2 :: "array2 \<Rightarrow> nat \<Rightarrow> nat \<Rightarrow> real" where
  "at2 arr r s = flat arr ! (r * ncols arr + s)"

text \<open>\<^verbatim>\<open>np.zeros(n)\<close> and \<^verbatim>\<open>np.zeros((rows, cols))\<close>.\<close>

definition zeros :: "nat \<Rightarrow> real list" where
  "zeros n = replicate n 0"

definition zeros2 :: "nat \<Rightarrow> nat \<Rightarrow> array2" where
  "zeros2 rows cols = \<lparr>nrows = rows, ncols = cols, flat = replicate (rows * cols) 0\<rparr>"

text \<open>An array has shape \<open>(rows, cols)\<close> and as many elements as the shape says.\<close>

definition has_shape :: "nat \<Rightarrow> nat \<Rightarrow> array2 \<Rightarrow> bool" where
  "has_shape rows cols arr \<longleftrightarrow>
     nrows arr = rows \<and> ncols arr = cols \<and> length (flat arr) = rows * cols"

subsection \<open>The controller object\<close>

text \<open>
  The attributes set in \<^verbatim>\<open>__init__\<close> and \<^verbatim>\<open>pre_start_capture\<close>. \<open>buffer = None\<close> is Python's
  \<^verbatim>\<open>None\<close>; \<open>cha_A_buffer = None\<close> and \<open>cha_B_buffer = None\<close> mean that the attribute does
  not exist yet (only \<^verbatim>\<open>pre_start_capture\<close> creates it).
\<close>

record controller =
  samples_per_record :: nat
  records_per_buffer :: nat
  buffers_per_acquisition :: nat
  number_of_channels :: nat
  buffer :: "real list option"
  cha_A_buffer :: "addr option"
  cha_B_buffer :: "addr option"

definition init_controller :: controller where
  "init_controller = \<lparr>samples_per_record = 0, records_per_buffer = 0,
     buffers_per_acquisition = 0, number_of_channels = 2, buffer = None,
     cha_A_buffer = None, cha_B_buffer = None\<rparr>"

text \<open>
  Modelled from the spec: the Hardware Configuration Provider (the Alazar instrument object
  returned by \<^verbatim>\<open>self._get_alazar()\<close>, a class of the qcodes library) exposes getters for
  \<open>samplesPerRecord\<close>, \<open>recordsPerBuffer\<close> and \<open>buffersPerAcquisition\<close>. Their validators in
  \<^verbatim>\<open>ats9371.py\<close> admit every multiple of 128 from 256 on for the first and every integer
  from 0 on for the other two.
\<close>

record alazar_settings =
  alazar_samples_per_record :: nat
  alazar_records_per_buffer :: nat
  alazar_buffers_per_acquisition :: nat

definition pre_start_capture :: "alazar_settings \<Rightarrow> controller \<Rightarrow> memory \<Rightarrow> controller \<times> memory" where
  "pre_start_capture alazar c m =
     (let c1 = c\<lparr>samples_per_record := alazar_samples_per_record alazar,
                  records_per_buffer := alazar_records_per_buffer alazar,
                  buffers_per_acquisition := alazar_buffers_per_acquisition alazar\<rparr>;
          c2 = c1\<lparr>buffer := Some (zeros (samples_per_record c1 * records_per_buffer c1
                                           * number_of_channels c1))\<rparr>;
          (a, m1) = alloc (zeros2 (records_per_buffer c2) (samples_per_record c2)) m;
          (b, m2) = alloc (zeros2 (records_per_buffer c2) (samples_per_record c2)) m1
      in (c2\<lparr>cha_A_buffer := Some a, cha_B_buffer := Some b\<rparr>, m2))"

subsection \<open>handle\_buffer\<close>

text \<open>
  \<^verbatim>\<open>self.buffer += buffer\<close> on one-dimensional arrays: numpy adds elementwise when the
  lengths agree, broadcasts a delivered array of length one over the whole buffer, and raises
  \<^verbatim>\<open>ValueError\<close> for every other pair of lengths. The left operand is updated in place.
\<close>

definition iadd :: "real list \<Rightarrow> real list \<Rightarrow> error + real list" where
  "iadd dst src =
     (if length src = length dst then Inr (map2 (+) dst src)
      else if length src = 1 then Inr (map (\<lambda>x. x + src ! 0) dst)
      else Inl ValueError)"

text \<open>
  \<^verbatim>\<open>handle_buffer(self, buffer, buffer_number=None)\<close>. The delivered array is called
  \<open>delivered\<close> here, since \<open>buffer\<close> is the attribute. The body never mentions
  \<^verbatim>\<open>buffer_number\<close>.
\<close>

definition handle_buffer :: "real list \<Rightarrow> int option \<Rightarrow> controller \<Rightarrow> error + controller" where
  "handle_buffer delivered buffer_number c =
     (case buffer c of
        None \<Rightarrow> Inl AssertionError
      | Some buf \<Rightarrow>
          (case iadd buf delivered of
             Inl e \<Rightarrow> Inl e
           | Inr buf' \<Rightarrow> Inr (c\<lparr>buffer := Some buf'\<rparr>)))"

subsection \<open>The voltage conversion\<close>

text \<open>
  \<^verbatim>\<open>signal_to_volt(signal)\<close>: \<^verbatim>\<open>return (signal - 32760) / 81900.0\<close>. The function has no
  type annotation, and what the expression computes depends on the numeric type of its
  argument. The model covers the two types that sample data has in this program:
  \<^item> a finite double (an element of a float64 array such as the session's raw buffer): a
    double subtraction and a double division;
  \<^item> an element of a uint16 array, the type of the card's raw codes: numpy keeps the
    difference in uint16, where it wraps around modulo \<open>2 ^ 16\<close>, and then divides the
    wrapped value as a double.
  Each IEEE operation returns the exact result rounded to a double; the rounding is the
  parameter \<open>rnd\<close>, about which nothing is assumed.
\<close>

datatype signal = Float64 real | UInt16 "16 word"

definition signal_to_volt :: "(real \<Rightarrow> real) \<Rightarrow> signal \<Rightarrow> real" where
  "signal_to_volt rnd signal =
     (case signal of
        Float64 x \<Rightarrow> rnd (rnd (x - 32760) / 81900)
      | UInt16 w \<Rightarrow> rnd (real (unat (w - 32760)) / 81900))"

text \<open>
  The conversion that both methods below apply to one element of the float64 raw buffer:
  \<^verbatim>\<open>(buffer[i] - 32760) / 81900.0\<close> in \<^verbatim>\<open>process_buffer\<close>, \<^verbatim>\<open>np.subtract(..., 32760)\<close> followed
  by \<^verbatim>\<open>/= 81900.0\<close> in the numpy method. As everywhere for the float64 buffers, in exact
  arithmetic.
\<close>

definition kernel_volt :: "real \<Rightarrow> real" where
  "kernel_volt x = (x - 32760) / 81900"

subsection \<open>The compiled kernel process\_buffer\<close>

text \<open>
  A Python \<^verbatim>\<open>for x in range(n)\<close> loop whose body may fail: the body runs for each element in
  turn on the state left by the one before, and the first failure ends the loop.
\<close>

primrec for_each :: "'i list \<Rightarrow> ('i \<Rightarrow> 's \<Rightarrow> error + 's) \<Rightarrow> 's \<Rightarrow> error + 's" where
  "for_each [] body st = Inr st"
| "for_each (x # xs) body st =
     (case body x st of Inl e \<Rightarrow> Inl e | Inr st' \<Rightarrow> for_each xs body st')"

text \<open>
  Element access inside the kernel. The compiled code does not check bounds; the model
  stops with \<open>MemoryFault\<close> where an index leaves the array.
\<close>

definition kernel_read :: "real list \<Rightarrow> nat \<Rightarrow> error + real" where
  "kernel_read xs i = (if i < length xs then Inr (xs ! i) else Inl MemoryFault)"

definition kernel_write2 :: "array2 \<Rightarrow> nat \<Rightarrow> nat \<Rightarrow> real \<Rightarrow> error + array2" where
  "kernel_write2 arr r s v =
     (if r < nrows arr \<and> s < ncols arr \<and> r * ncols arr + s < length (flat arr)
      then Inr (arr\<lparr>flat := (flat arr)[r * ncols arr + s := v]\<rparr>)
      else Inl MemoryFault)"

text \<open>
  The body of the inner loop of \<^verbatim>\<open>process_buffer\<close>:
  \<^verbatim>\<open>
  i = (r * n_samples + s) * 2
  cha_A[r, s] = (buffer[i]     - 32760) / 81900.0
  cha_B[r, s] = (buffer[i + 1] - 32760) / 81900.0
  \<close>
\<close>

definition process_sample ::
  "real list \<Rightarrow> nat \<Rightarrow> nat \<Rightarrow> nat \<Rightarrow> array2 \<times> array2 \<Rightarrow> error + array2 \<times> array2" where
  "process_sample buf n_samples r s st =
     (let i = (r * n_samples + s) * 2; cha_A = fst st; cha_B = snd st in
      case kernel_read buf i of Inl e \<Rightarrow> Inl e | Inr x \<Rightarrow>
     (case kernel_write2 cha_A r s ((x - 32760) / 81900) of Inl e \<Rightarrow> Inl e | Inr cha_A' \<Rightarrow>
     (case kernel_read buf (i + 1) of Inl e \<Rightarrow> Inl e | Inr y \<Rightarrow>
     (case kernel_write2 cha_B r s ((y - 32760) / 81900) of Inl e \<Rightarrow> Inl e | Inr cha_B' \<Rightarrow>
      Inr (cha_A', cha_B')))))"

text \<open>
  \<^verbatim>\<open>process_buffer(buffer, cha_A, cha_B, n_records, n_samples)\<close>. The source writes into
  \<^verbatim>\<open>cha_A\<close> and \<^verbatim>\<open>cha_B\<close>; the model returns the two arrays as written. The outer loop is
  \<^verbatim>\<open>numba.prange\<close>: its iterations may run on several workers; each iteration writes row \<open>r\<close>
  only and reads nothing that another writes, and the model runs them in index order.
\<close>

definition process_buffer ::
  "real list \<Rightarrow> array2 \<Rightarrow> array2 \<Rightarrow> nat \<Rightarrow> nat \<Rightarrow> error + array2 \<times> array2" where
  "process_buffer buf cha_A cha_B n_records n_samples =
     for_each [0..<n_records]
       (\<lambda>r. for_each [0..<n_samples] (process_sample buf n_samples r))
       (cha_A, cha_B)"

subsection \<open>The numpy operations of the vectorized path\<close>

text \<open>
  A three-dimensional view of a one-dimensional array, in row-major order: element
  \<open>[r, s, ch]\<close> is \<open>flat3 ! ((r * dim1 + s) * dim2 + ch)\<close>.
\<close>

record array3 =
  dim0 :: nat
  dim1 :: nat
  dim2 :: nat
  flat3 :: "real list"

text \<open>
  \<^verbatim>\<open>xs.reshape(d0, -1, d2)\<close>: numpy infers the middle dimension as
  \<open>length xs div (d0 * d2)\<close> and raises \<^verbatim>\<open>ValueError\<close> when \<open>d0 * d2\<close> is zero or does not
  divide the length.
\<close>

definition reshape_infer :: "nat \<Rightarrow> nat \<Rightarrow> real list \<Rightarrow> error + array3" where
  "reshape_infer d0 d2 xs =
     (let known = d0 * d2 in
      if known = 0 \<or> length xs mod known \<noteq> 0 then Inl ValueError
      else Inr \<lparr>dim0 = d0, dim1 = length xs div known, dim2 = d2, flat3 = xs\<rparr>)"

text \<open>\<^verbatim>\<open>reshaped[:, :, ch]\<close>: the two-dimensional view that keeps index \<open>ch\<close> of the last axis.\<close>

definition select_channel :: "array3 \<Rightarrow> nat \<Rightarrow> error + array2" where
  "select_channel v ch =
     (if ch < dim2 v
      then Inr \<lparr>nrows = dim0 v, ncols = dim1 v,
                flat = map (\<lambda>j. flat3 v ! (j * dim2 v + ch)) [0..<dim0 v * dim1 v]\<rparr>
      else Inl IndexError)"

text \<open>
  Broadcasting a two-dimensional operand to the shape \<open>(rows, cols)\<close> of an output array:
  each axis of the operand must have the output's length or length one, and an axis of
  length one is repeated.
\<close>

definition broadcast_to :: "nat \<Rightarrow> nat \<Rightarrow> array2 \<Rightarrow> error + real list" where
  "broadcast_to rows cols x =
     (if (nrows x = rows \<or> nrows x = 1) \<and> (ncols x = cols \<or> ncols x = 1)
      then Inr (map (\<lambda>j. flat x ! ((if nrows x = 1 then 0 else j div cols) * ncols x
                                   + (if ncols x = 1 then 0 else j mod cols)))
                    [0..<rows * cols])
      else Inl ValueError)"

text \<open>
  \<^verbatim>\<open>np.subtract(x, k, out=<the array at a>)\<close> and \<^verbatim>\<open><the array at a> /= k\<close>. Both write
  into the array at address \<open>a\<close>; a failing call writes nothing.
\<close>

definition subtract_into :: "array2 \<Rightarrow> real \<Rightarrow> addr \<Rightarrow> memory \<Rightarrow> error + memory" where
  "subtract_into x k a m =
     (case cells m a of
        None \<Rightarrow> Inl AttributeError
      | Some out \<Rightarrow>
          (case broadcast_to (nrows out) (ncols out) x of
             Inl e \<Rightarrow> Inl e
           | Inr xs \<Rightarrow> Inr (store a (out\<lparr>flat := map (\<lambda>v. v - k) xs\<rparr>) m)))"

definition divide_inplace :: "addr \<Rightarrow> real \<Rightarrow> memory \<Rightarrow> error + memory" where
  "divide_inplace a k m =
     (case cells m a of
        None \<Rightarrow> Inl AttributeError
      | Some arr \<Rightarrow> Inr (store a (arr\<lparr>flat := map (\<lambda>v. v / k) (flat arr)\<rparr>) m))"

text \<open>\<^verbatim>\<open>arr.copy()\<close>: a new array with the same shape and elements.\<close>

definition copy_array :: "addr \<Rightarrow> memory \<Rightarrow> error + addr \<times> memory" where
  "copy_array a m =
     (case cells m a of None \<Rightarrow> Inl AttributeError | Some arr \<Rightarrow> Inr (alloc arr m))"

subsection \<open>The two conversion methods\<close>

text \<open>
  The last four lines of both methods:
  \<^verbatim>\<open>
  if copy:
      return self.cha_A_buffer.copy(), self.cha_B_buffer.copy()
  else:
      return self.cha_A_buffer, self.cha_B_buffer
  \<close>
  A method returns the addresses of the two arrays it hands to the caller, and the store.
\<close>

definition return_buffers :: "bool \<Rightarrow> addr \<Rightarrow> addr \<Rightarrow> memory \<Rightarrow> (error + addr \<times> addr) \<times> memory" where
  "return_buffers copy a b m =
     (if copy then
        (case copy_array a m of Inl e \<Rightarrow> (Inl e, m) | Inr (a', m1) \<Rightarrow>
        (case copy_array b m1 of Inl e \<Rightarrow> (Inl e, m1) | Inr (b', m2) \<Rightarrow>
         (Inr (a', b'), m2)))
      else (Inr (a, b), m))"

text \<open>
  \<^verbatim>\<open>numpy_get_alldata_from_buffer_in_volt(self, copy=True)\<close>, statement by statement: the
  reshape, the two views, subtract and divide into channel A's buffer, the same for channel
  B, the return.
\<close>

definition numpy_get_alldata_from_buffer_in_volt ::
  "bool \<Rightarrow> controller \<Rightarrow> memory \<Rightarrow> (error + addr \<times> addr) \<times> memory" where
  "numpy_get_alldata_from_buffer_in_volt copy c m =
     (case buffer c of None \<Rightarrow> (Inl AttributeError, m) | Some buf \<Rightarrow>
     (case reshape_infer (records_per_buffer c) 2 buf of Inl e \<Rightarrow> (Inl e, m) | Inr reshaped \<Rightarrow>
     (case select_channel reshaped 0 of Inl e \<Rightarrow> (Inl e, m) | Inr cha_A_raw \<Rightarrow>
     (case select_channel reshaped 1 of Inl e \<Rightarrow> (Inl e, m) | Inr cha_B_raw \<Rightarrow>
     (case cha_A_buffer c of None \<Rightarrow> (Inl AttributeError, m) | Some a \<Rightarrow>
     (case subtract_into cha_A_raw 32760 a m of Inl e \<Rightarrow> (Inl e, m) | Inr m1 \<Rightarrow>
     (case divide_inplace a 81900 m1 of Inl e \<Rightarrow> (Inl e, m1) | Inr m2 \<Rightarrow>
     (case cha_B_buffer c of None \<Rightarrow> (Inl AttributeError, m2) | Some b \<Rightarrow>
     (case subtract_into cha_B_raw 32760 b m2 of Inl e \<Rightarrow> (Inl e, m2) | Inr m3 \<Rightarrow>
     (case divide_inplace b 81900 m3 of Inl e \<Rightarrow> (Inl e, m3) | Inr m4 \<Rightarrow>
      return_buffers copy a b m4))))))))))"

text \<open>
  \<^verbatim>\<open>numba_get_alldata_from_buffer_in_volt(self, copy=True)\<close>: the arguments of the call are
  read from the controller, \<^verbatim>\<open>process_buffer\<close> runs on the two channel arrays, which are
  two distinct arrays in every state that \<^verbatim>\<open>pre_start_capture\<close> leaves, and its writes land in
  the store.
\<close>

definition numba_get_alldata_from_buffer_in_volt ::
  "bool \<Rightarrow> controller \<Rightarrow> memory \<Rightarrow> (error + addr \<times> addr) \<times> memory" where
  "numba_get_alldata_from_buffer_in_volt copy c m =
     (case cha_A_buffer c of None \<Rightarrow> (Inl AttributeError, m) | Some a \<Rightarrow>
     (case cha_B_buffer c of None \<Rightarrow> (Inl AttributeError, m) | Some b \<Rightarrow>
     (case buffer c of None \<Rightarrow> (Inl TypingError, m) | Some buf \<Rightarrow>
     (case cells m a of None \<Rightarrow> (Inl AttributeError, m) | Some cha_A \<Rightarrow>
     (case cells m b of None \<Rightarrow> (Inl AttributeError, m) | Some cha_B \<Rightarrow>
     (case process_buffer buf cha_A cha_B (records_per_buffer c) (samples_per_record c) of
        Inl e \<Rightarrow> (Inl e, m)
      | Inr (cha_A', cha_B') \<Rightarrow>
          return_buffers copy a b (store b cha_B' (store a cha_A' m))))))))"

subsection \<open>Prepared sessions\<close>

text \<open>
  What \<^verbatim>\<open>pre_start_capture\<close> establishes and every later call keeps: two channels, a raw
  buffer of \<open>samples_per_record * records_per_buffer * 2\<close> elements, and two distinct
  allocated channel arrays of shape \<open>(records_per_buffer, samples_per_record)\<close>.
\<close>

definition prepared :: "controller \<Rightarrow> memory \<Rightarrow> bool" where
  "prepared c m \<longleftrightarrow>
     number_of_channels c = 2 \<and>
     (case (buffer c, cha_A_buffer c, cha_B_buffer c) of
        (Some buf, Some a, Some b) \<Rightarrow>
          length buf = samples_per_record c * records_per_buffer c * 2 \<and>
          a \<noteq> b \<and> a < next_free m \<and> b < next_free m \<and>
          (case (cells m a, cells m b) of
             (Some cha_A, Some cha_B) \<Rightarrow>
               has_shape (records_per_buffer c) (samples_per_record c) cha_A \<and>
               has_shape (records_per_buffer c) (samples_per_record c) cha_B
           | _ \<Rightarrow> False)
      | _ \<Rightarrow> False)"

text \<open>
  The array that a conversion leaves in the buffer of channel \<open>ch\<close> (0 for A, 1 for B):
  shape \<open>(n_records, n_samples)\<close>, and at flat position \<open>j = r * n_samples + s\<close> the voltage of
  raw element \<open>j * 2 + ch\<close>.
\<close>

definition channel_volts :: "nat \<Rightarrow> nat \<Rightarrow> nat \<Rightarrow> real list \<Rightarrow> array2" where
  "channel_volts ch n_records n_samples raw =
     \<lparr>nrows = n_records, ncols = n_samples,
      flat = map (\<lambda>j. kernel_volt (raw ! (j * 2 + ch))) [0..<n_records * n_samples]\<rparr>"

subsection \<open>Auxiliary definitions for the statements\<close>

text \<open>
  A channel array while the kernel runs: the first \<open>k\<close> flat positions hold the converted
  values of channel \<open>ch\<close>, the others hold what \<open>arr\<close> held. This is the loop invariant of
  \<^verbatim>\<open>process_buffer\<close>.
\<close>

definition fill_upto :: "nat \<Rightarrow> real list \<Rightarrow> nat \<Rightarrow> array2 \<Rightarrow> array2" where
  "fill_upto ch raw k arr =
     arr\<lparr>flat := map (\<lambda>j. if j < k then kernel_volt (raw ! (j * 2 + ch)) else flat arr ! j)
                      [0..<length (flat arr)]\<rparr>"

text \<open>The store after a conversion of raw buffer \<open>raw\<close> in a session with buffers at \<open>a\<close>, \<open>b\<close>.\<close>

definition converted :: "controller \<Rightarrow> real list \<Rightarrow> addr \<Rightarrow> addr \<Rightarrow> memory \<Rightarrow> memory" where
  "converted c raw a b m =
     store b (channel_volts 1 (records_per_buffer c) (samples_per_record c) raw)
       (store a (channel_volts 0 (records_per_buffer c) (samples_per_record c) raw) m)"

text \<open>The two conversion methods under one name, so that a statement can range over both.\<close>

datatype strategy = Numpy | Numba

definition get_alldata ::
  "strategy \<Rightarrow> bool \<Rightarrow> controller \<Rightarrow> memory \<Rightarrow> (error + addr \<times> addr) \<times> memory" where
  "get_alldata strat copy c m =
     (case strat of
        Numpy \<Rightarrow> numpy_get_alldata_from_buffer_in_volt copy c m
      | Numba \<Rightarrow> numba_get_alldata_from_buffer_in_volt copy c m)"

text \<open>
  The arrays that a call hands to its caller: what the store left by the call holds at the
  two returned addresses; \<open>None\<close> when the call raised.
\<close>

definition returned_arrays :: "(error + addr \<times> addr) \<times> memory \<Rightarrow> (array2 \<times> array2) option" where
  "returned_arrays out =
     (case fst out of
        Inl e \<Rightarrow> None
      | Inr (pa, pb) \<Rightarrow>
          (case (cells (snd out) pa, cells (snd out) pb) of
             (Some cha_A, Some cha_B) \<Rightarrow> Some (cha_A, cha_B)
           | _ \<Rightarrow> None))"

text \<open>
  What a caller does with a session between two conversions: deliveries and conversions, in
  any order. A call that raises leaves the session as that call left it, and the caller goes
  on with the next one.
\<close>

datatype session_op = Deliver "real list" "int option" | Convert strategy bool

fun run_op :: "session_op \<Rightarrow> controller \<times> memory \<Rightarrow> controller \<times> memory" where
  "run_op (Deliver delivered n) (c, m) =
     (case handle_buffer delivered n c of Inl e \<Rightarrow> (c, m) | Inr c' \<Rightarrow> (c', m))"
| "run_op (Convert strat copy) (c, m) = (c, snd (get_alldata strat copy c m))"

primrec run_ops :: "session_op list \<Rightarrow> controller \<times> memory \<Rightarrow> controller \<times> memory" where
  "run_ops [] st = st"
| "run_ops (op # ops) st = run_ops ops (run_op op st)"

text \<open>
  The session as \<^verbatim>\<open>__init__\<close> followed by \<^verbatim>\<open>pre_start_capture\<close> leaves it, for a board set to
  \<open>n_samples\<close> samples per record and \<open>n_records\<close> records per buffer.
\<close>

definition fresh_session :: "nat \<Rightarrow> nat \<Rightarrow> controller \<times> memory" where
  "fresh_session n_samples n_records =
     pre_start_capture
       \<lparr>alazar_samples_per_record = n_samples, alazar_records_per_buffer = n_records,
        alazar_buffers_per_acquisition = 1\<rparr>
       init_controller empty_memory"

text \<open>
  The end-to-end scenario of the specification: 256 samples per record, 2 records per buffer,
  and one delivery of the raw buffer \<open>[32760, 32760, 32840, 32680, ...]\<close>, the four values
  repeated over both records (1024 elements), into the zero-filled raw buffer.
\<close>

definition example_raw :: "real list" where
  "example_raw = concat (replicate 256 [32760, 32760, 32840, 32680])"

definition example_controller :: controller where
  "example_controller = (fst (fresh_session 256 2))\<lparr>buffer := Some example_raw\<rparr>"

definition example_memory :: memory where
  "example_memory = snd (fresh_session 256 2)"

section \<open>ats9371.py: the trigger holdoff parameter\<close>

subsection \<open>The board as the driver sees it\<close>

text \<open>
  The driver reaches the board through three methods of its base class, a class of the
  qcodes library: \<^verbatim>\<open>get_idn()\<close>, \<^verbatim>\<open>_read_register(n)\<close> and \<^verbatim>\<open>_write_register(n, value)\<close>.
  The model keeps what they expose: the \<^verbatim>\<open>"firmware"\<close> entry of the identity (\<open>None\<close> when it
  is not a \<^verbatim>\<open>str\<close>), the 32-bit registers, and a log of every register access in order, so that
  "no register is read" is a statement about the log.
\<close>

datatype reg_op = RegRead nat | RegWrite nat "32 word"

record board =
  firmware :: "string option"
  registers :: "nat \<Rightarrow> 32 word"
  reg_log :: "reg_op list"

definition read_register :: "nat \<Rightarrow> board \<Rightarrow> 32 word \<times> board" where
  "read_register n b = (registers b n, b\<lparr>reg_log := reg_log b @ [RegRead n]\<rparr>)"

definition write_register :: "nat \<Rightarrow> 32 word \<Rightarrow> board \<Rightarrow> board" where
  "write_register n v b =
     b\<lparr>registers := (registers b)(n := v), reg_log := reg_log b @ [RegWrite n v]\<rparr>"

text \<open>The class attribute \<^verbatim>\<open>_trigger_holdoff_min_fw_version = '30.04'\<close>.\<close>

definition trigger_holdoff_min_fw_version :: string where
  "trigger_holdoff_min_fw_version = ''30.04''"

subsection \<open>Python built-ins used by the getter\<close>

text \<open>
  \<^verbatim>\<open>bin(n)\<close> for a non-negative integer: the prefix \<^verbatim>\<open>0b\<close> and the binary digits, most
  significant first, without leading zeros (\<^verbatim>\<open>bin(0)\<close> is \<^verbatim>\<open>0b0\<close>).
\<close>

fun bin_digits :: "nat \<Rightarrow> string" where
  "bin_digits n =
     (if n < 2 then [if n = 0 then CHR ''0'' else CHR ''1'']
      else bin_digits (n div 2) @ [if even n then CHR ''0'' else CHR ''1''])"

declare bin_digits.simps [simp del]

definition bin :: "nat \<Rightarrow> string" where
  "bin n = ''0b'' @ bin_digits n"

text \<open>
  \<^verbatim>\<open>s[i]\<close> on a string: a negative index counts from the end, an index outside the string
  raises \<^verbatim>\<open>IndexError\<close>, and the result is the string of that one character.
\<close>

definition str_index :: "string \<Rightarrow> int \<Rightarrow> error + string" where
  "str_index s i =
     (let j = (if i < 0 then int (length s) + i else i) in
      if 0 \<le> j \<and> j < int (length s) then Inr [s ! nat j] else Inl IndexError)"

text \<open>\<^verbatim>\<open>bool(s)\<close> on a string: true exactly when the string is not empty.\<close>

definition bool_of_str :: "string \<Rightarrow> bool" where
  "bool_of_str s \<longleftrightarrow> s \<noteq> []"

subsection \<open>The getter and the setter\<close>

text \<open>
  \<^verbatim>\<open>version.parse\<close> belongs to the \<^verbatim>\<open>packaging\<close> library. Both methods take it as the
  parameter \<open>parse\<close>: \<open>None\<close> stands for the \<^verbatim>\<open>InvalidVersion\<close> that the library raises on a
  string it rejects, and the versions it returns are compared by the order \<open><\<close> of their type.

  \<^verbatim>\<open>_get_trigger_holdoff(self)\<close>. The condition of the first \<^verbatim>\<open>if\<close> is evaluated left to right:
  the \<^verbatim>\<open>isinstance\<close> test, then the parse of the firmware string, then the parse of the minimum,
  then the comparison. A method returns its result, or the error it raised, and the board.
\<close>

definition get_trigger_holdoff ::
  "(string \<Rightarrow> 'v::ord option) \<Rightarrow> board \<Rightarrow> (error + bool) \<times> board" where
  "get_trigger_holdoff parse b =
     (case firmware b of None \<Rightarrow> (Inr False, b) | Some fwversion \<Rightarrow>
     (case parse fwversion of None \<Rightarrow> (Inl (InvalidVersion fwversion), b) | Some v \<Rightarrow>
     (case parse trigger_holdoff_min_fw_version of
        None \<Rightarrow> (Inl (InvalidVersion trigger_holdoff_min_fw_version), b)
      | Some vmin \<Rightarrow>
          if v < vmin then (Inr False, b)
          else
            (let (output, b1) = read_register 58 b;
                 bitmask = drop 2 (bin (unat output))
             in if length bitmask < 27 then (Inr False, b1)
                else (case str_index (bin (unat output)) (- 27) of
                        Inl e \<Rightarrow> (Inl e, b1)
                      | Inr ch \<Rightarrow> (Inr (bool_of_str ch), b1))))))"

text \<open>
  The values that the parameter's validator \<^verbatim>\<open>validators.Bool()\<close> lets through to the setter:
  Python's \<^verbatim>\<open>bool\<close> objects and numpy's \<^verbatim>\<open>numpy.bool_\<close> objects. The test
  \<^verbatim>\<open>value is True\<close> of the setter is an identity test against Python's \<^verbatim>\<open>True\<close> object, which
  no numpy object is.
\<close>

datatype bool_value = PyBool bool | NpBool bool

definition is_True :: "bool_value \<Rightarrow> bool" where
  "is_True value \<longleftrightarrow> value = PyBool True"

text \<open>What the value means as a truth value (\<^verbatim>\<open>bool(value)\<close>).\<close>

fun truth :: "bool_value \<Rightarrow> bool" where
  "truth (PyBool x) = x"
| "truth (NpBool x) = x"

text \<open>
  \<^verbatim>\<open>_set_trigger_holdoff(self, value)\<close>. \<^verbatim>\<open>np.uint32(1 << 26)\<close> is \<open>push_bit 26 1\<close> on 32-bit
  words, \<^verbatim>\<open>~\<close> is \<open>NOT\<close>, and the register value read from the board is a 32-bit value, so the
  whole computation is on 32-bit words.
\<close>

definition set_trigger_holdoff ::
  "(string \<Rightarrow> 'v::ord option) \<Rightarrow> bool_value \<Rightarrow> board \<Rightarrow> (error + unit) \<times> board" where
  "set_trigger_holdoff parse value b =
     (case firmware b of
        None \<Rightarrow> (Inl (UnsupportedFirmware trigger_holdoff_min_fw_version None), b)
      | Some fwversion \<Rightarrow>
     (case parse fwversion of None \<Rightarrow> (Inl (InvalidVersion fwversion), b) | Some v \<Rightarrow>
     (case parse trigger_holdoff_min_fw_version of
        None \<Rightarrow> (Inl (InvalidVersion trigger_holdoff_min_fw_version), b)
      | Some vmin \<Rightarrow>
          if v < vmin
          then (Inl (UnsupportedFirmware trigger_holdoff_min_fw_version (Some fwversion)), b)
          else
            (let (current_value, b1) = read_register 58 b;
                 new_value =
                   (if is_True value then current_value OR push_bit 26 1
                    else current_value AND NOT (push_bit 26 1))
             in (Inr (), write_register 58 new_value b1)))))"

subsection \<open>A version parser for dotted numeric strings\<close>

text \<open>
  Modelled from the spec: a firmware version is "a dotted version string compared using
  standard multi-component numeric ordering". This parser accepts exactly the strings made
  of one or more non-empty runs of decimal digits separated by dots and returns the numbers
  with trailing zero components removed; two such lists compare lexicographically, which is
  how the \<^verbatim>\<open>packaging\<close> library orders plain release versions. The other forms that the
  library accepts (epochs, pre-, post- and development releases, local versions) are outside
  this parser, and no theorem below applies it to such a string. It serves as the concrete
  parser of the evaluations; the general theorems hold for every parser.
\<close>

fun split_on :: "char \<Rightarrow> string \<Rightarrow> string list" where
  "split_on sep [] = [[]]"
| "split_on sep (c # cs) =
     (if c = sep then [] # split_on sep cs
      else (case split_on sep cs of [] \<Rightarrow> [[c]] | w # ws \<Rightarrow> (c # w) # ws))"

definition is_digit :: "char \<Rightarrow> bool" where
  "is_digit c \<longleftrightarrow> c \<in> set ''0123456789''"

definition digit_value :: "char \<Rightarrow> nat" where
  "digit_value c = of_char c - 48"

definition parse_component :: "string \<Rightarrow> nat option" where
  "parse_component s =
     (if s \<noteq> [] \<and> list_all is_digit s
      then Some (foldl (\<lambda>n c. 10 * n + digit_value c) 0 s) else None)"

definition strip_trailing_zeros :: "nat list \<Rightarrow> nat list" where
  "strip_trailing_zeros xs = rev (dropWhile (\<lambda>n. n = 0) (rev xs))"

definition parse_version :: "string \<Rightarrow> nat list option" where
  "parse_version s =
     (let parts = map parse_component (split_on CHR ''.'' s) in
      if list_all (\<lambda>p. p \<noteq> None) parts
      then Some (strip_trailing_zeros (map the parts)) else None)"

text \<open>A board with the given firmware entry, the given value in register 58, zero in every
  other register and an empty access log.\<close>

definition board_with :: "string option \<Rightarrow> 32 word \<Rightarrow> board" where
  "board_with fw v = \<lparr>firmware = fw, registers = (\<lambda>_. 0)(58 := v), reg_log = []\<rparr>"

section \<open>Properties of handle\_buffer\<close>

lemma iadd_same_length:
  "length d = length raw \<Longrightarrow> iadd raw d = Inr (map2 (+) raw d)"
  by (simp add: iadd_def)

lemma map2_add_zeros:
  "map2 (+) (zeros (length d)) d = d"
  by (rule nth_equalityI) (simp_all add: zeros_def)

lemma map2_add_self:
  "map2 (+) d d = map (\<lambda>x. 2 * x) (d :: real list)"
  by (rule nth_equalityI) simp_all

text \<open>
  C5. When the delivered array has the length of the raw buffer, \<open>handle_buffer\<close> succeeds,
  changes nothing but the raw buffer, and the new raw buffer is the old one plus the delivered
  array, position by position. Hence two deliveries of the same array \<open>d\<close> into a zero-filled
  raw buffer leave \<open>d\<close> after the first and twice \<open>d\<close>, elementwise, after the second.
\<close>

theorem handle_buffer_accumulates:
  assumes "buffer c = Some raw" and "length d = length raw"
  shows "(\<exists>raw'. handle_buffer d n c = Inr (c\<lparr>buffer := Some raw'\<rparr>)
            \<and> length raw' = length raw
            \<and> (\<forall>k < length raw. raw' ! k = raw ! k + d ! k))
       \<and> (raw = zeros (length d) \<longrightarrow>
            (\<exists>c1 c2. handle_buffer d n c = Inr c1 \<and> buffer c1 = Some d
                   \<and> handle_buffer d n' c1 = Inr c2
                   \<and> buffer c2 = Some (map (\<lambda>x. 2 * x) d)))"
proof (intro conjI impI)
  have step: "handle_buffer d n c = Inr (c\<lparr>buffer := Some (map2 (+) raw d)\<rparr>)"
    using assms by (simp add: handle_buffer_def iadd_same_length)
  show "\<exists>raw'. handle_buffer d n c = Inr (c\<lparr>buffer := Some raw'\<rparr>)
            \<and> length raw' = length raw
            \<and> (\<forall>k < length raw. raw' ! k = raw ! k + d ! k)"
    using step assms(2) by (intro exI [of _ "map2 (+) raw d"]) simp
  assume z: "raw = zeros (length d)"
  have first: "handle_buffer d n c = Inr (c\<lparr>buffer := Some d\<rparr>)"
    using step z by (simp add: map2_add_zeros)
  have second: "handle_buffer d n' (c\<lparr>buffer := Some d\<rparr>)
                  = Inr (c\<lparr>buffer := Some (map (\<lambda>x. 2 * x) d)\<rparr>)"
    by (simp add: handle_buffer_def iadd_same_length map2_add_self)
  show "\<exists>c1 c2. handle_buffer d n c = Inr c1 \<and> buffer c1 = Some d
                   \<and> handle_buffer d n' c1 = Inr c2
                   \<and> buffer c2 = Some (map (\<lambda>x. 2 * x) d)"
    using first second by simp
qed

theorem handle_buffer_accumulates_witness:
  "handle_buffer [32760, 32840] (Some 0) (init_controller\<lparr>buffer := Some (zeros 2)\<rparr>)
     = Inr (init_controller\<lparr>buffer := Some [32760, 32840]\<rparr>)
   \<and> (\<exists>c2. handle_buffer [32760, 32840] (Some 1) (init_controller\<lparr>buffer := Some [32760, 32840]\<rparr>)
             = Inr c2 \<and> buffer c2 = Some [65520, 65680])"
  using handle_buffer_accumulates
          [of "init_controller\<lparr>buffer := Some (zeros 2)\<rparr>" "zeros 2" "[32760, 32840]" "Some 0" "Some 1"]
  by (auto simp: zeros_def numeral_2_eq_2)

text \<open>
  C10. The slot index is ignored: for one controller state and one delivered array,
  \<open>handle_buffer\<close> gives the same result (the same error, or the same new state) for every
  two values of \<open>buffer_number\<close>, \<open>None\<close> included.
\<close>

theorem handle_buffer_ignores_buffer_number:
  "handle_buffer delivered n c = handle_buffer delivered n' c"
  by (simp add: handle_buffer_def)

section \<open>The conversion kernels\<close>

lemma for_each_append:
  "for_each (xs @ ys) body st =
     (case for_each xs body st of Inl e \<Rightarrow> Inl e | Inr st' \<Rightarrow> for_each ys body st')"
  by (induction xs arbitrary: st) (auto split: sum.splits)

lemma flat_index_bound:
  fixes r s :: nat
  assumes "r < R" and "s < S"
  shows "r * S + s < R * S"
proof -
  have "r * S + s < r * S + S" using assms(2) by simp
  also have "\<dots> = Suc r * S" by simp
  also have "\<dots> \<le> R * S" using assms(1) by (intro mult_le_mono1) simp
  finally show ?thesis .
qed

lemma fill_upto_0: "fill_upto ch raw 0 arr = arr"
  by (simp add: fill_upto_def map_nth)

lemma has_shape_fill_upto:
  "has_shape R S arr \<Longrightarrow> has_shape R S (fill_upto ch raw k arr)"
  by (simp add: has_shape_def fill_upto_def)

lemma fill_upto_step:
  assumes "k < length (flat arr)"
  shows "(fill_upto ch raw k arr)\<lparr>flat := (flat (fill_upto ch raw k arr))
            [k := kernel_volt (raw ! (k * 2 + ch))]\<rparr> = fill_upto ch raw (Suc k) arr"
proof -
  have "(map (\<lambda>j. if j < k then kernel_volt (raw ! (j * 2 + ch)) else flat arr ! j)
             [0..<length (flat arr)])[k := kernel_volt (raw ! (k * 2 + ch))]
        = map (\<lambda>j. if j < Suc k then kernel_volt (raw ! (j * 2 + ch)) else flat arr ! j)
             [0..<length (flat arr)]"
    using assms by (intro nth_equalityI) (auto simp: nth_list_update less_Suc_eq)
  then show ?thesis by (simp add: fill_upto_def)
qed

lemma fill_upto_all:
  assumes "has_shape R S arr"
  shows "fill_upto ch raw (R * S) arr = channel_volts ch R S raw"
  using assms by (simp add: fill_upto_def channel_volts_def has_shape_def)

lemma process_sample_step:
  assumes A: "has_shape R S cha_A" and B: "has_shape R S cha_B"
    and len: "length raw = S * R * 2" and r: "r < R" and s: "s < S"
  shows "process_sample raw S r s (fill_upto 0 raw (r * S + s) cha_A, fill_upto 1 raw (r * S + s) cha_B)
           = Inr (fill_upto 0 raw (Suc (r * S + s)) cha_A, fill_upto 1 raw (Suc (r * S + s)) cha_B)"
proof -
  let ?k = "r * S + s"
  have k: "?k < R * S" using r s by (rule flat_index_bound)
  then have i: "?k * 2 + 1 < length raw" using len by (simp add: mult.commute)
  have kA: "?k < length (flat cha_A)" and kB: "?k < length (flat cha_B)"
    using k A B by (simp_all add: has_shape_def)
  have shA: "has_shape R S (fill_upto 0 raw ?k cha_A)" and shB: "has_shape R S (fill_upto 1 raw ?k cha_B)"
    using A B by (simp_all add: has_shape_fill_upto)
  have rd0: "kernel_read raw (?k * 2) = Inr (raw ! (?k * 2))"
    and rd1: "kernel_read raw (?k * 2 + 1) = Inr (raw ! (?k * 2 + 1))"
    using i by (simp_all add: kernel_read_def)
  have wr: "\<And>arr v. has_shape R S arr \<Longrightarrow>
              kernel_write2 arr r s v = Inr (arr\<lparr>flat := (flat arr)[?k := v]\<rparr>)"
    using r s k by (simp add: kernel_write2_def has_shape_def)
  have stA: "(fill_upto 0 raw ?k cha_A)\<lparr>flat := (flat (fill_upto 0 raw ?k cha_A))
            [?k := (raw ! (?k * 2) - 32760) / 81900]\<rparr> = fill_upto 0 raw (Suc ?k) cha_A"
    using fill_upto_step [OF kA, of 0 raw] by (simp only: kernel_volt_def add_0_right)
  have stB: "(fill_upto 1 raw ?k cha_B)\<lparr>flat := (flat (fill_upto 1 raw ?k cha_B))
            [?k := (raw ! (?k * 2 + 1) - 32760) / 81900]\<rparr> = fill_upto 1 raw (Suc ?k) cha_B"
    using fill_upto_step [OF kB, of 1 raw] by (simp only: kernel_volt_def)
  show ?thesis
    unfolding process_sample_def Let_def fst_conv snd_conv
    by (simp only: rd0 rd1 wr [OF shA] wr [OF shB] sum.case stA stB)
qed

lemma inner_loop:
  assumes A: "has_shape R S cha_A" and B: "has_shape R S cha_B"
    and len: "length raw = S * R * 2" and r: "r < R"
  shows "n \<le> S \<Longrightarrow>
         for_each [0..<n] (process_sample raw S r)
           (fill_upto 0 raw (r * S) cha_A, fill_upto 1 raw (r * S) cha_B)
           = Inr (fill_upto 0 raw (r * S + n) cha_A, fill_upto 1 raw (r * S + n) cha_B)"
proof (induction n)
  case 0
  then show ?case by simp
next
  case (Suc n)
  then have n: "n < S" by simp
  show ?case
    using Suc.IH n process_sample_step [OF A B len r n]
    by (simp add: for_each_append)
qed

lemma outer_loop:
  assumes A: "has_shape R S cha_A" and B: "has_shape R S cha_B"
    and len: "length raw = S * R * 2"
  shows "n \<le> R \<Longrightarrow>
         for_each [0..<n] (\<lambda>r. for_each [0..<S] (process_sample raw S r)) (cha_A, cha_B)
           = Inr (fill_upto 0 raw (n * S) cha_A, fill_upto 1 raw (n * S) cha_B)"
proof (induction n)
  case 0
  then show ?case by (simp add: fill_upto_0)
next
  case (Suc n)
  then have n: "n < R" by simp
  show ?case
    using Suc.IH n inner_loop [OF A B len n, of S]
    by (simp add: for_each_append add.commute)
qed

lemma process_buffer_prepared:
  assumes "has_shape R S cha_A" and "has_shape R S cha_B" and "length raw = S * R * 2"
  shows "process_buffer raw cha_A cha_B R S = Inr (channel_volts 0 R S raw, channel_volts 1 R S raw)"
  using outer_loop [OF assms, of R] assms(1,2)
  by (simp add: process_buffer_def fill_upto_all)

lemma reshape_infer_prepared:
  assumes "length raw = S * R * 2" and "0 < R"
  shows "reshape_infer R 2 raw = Inr \<lparr>dim0 = R, dim1 = S, dim2 = 2, flat3 = raw\<rparr>"
proof -
  have "length raw = S * (R * 2)" using assms(1) by (simp add: mult.assoc)
  then show ?thesis using assms(2) by (simp add: reshape_infer_def)
qed

lemma select_channel_reshaped:
  "ch < 2 \<Longrightarrow>
   select_channel \<lparr>dim0 = R, dim1 = S, dim2 = 2, flat3 = raw\<rparr> ch
     = Inr \<lparr>nrows = R, ncols = S, flat = map (\<lambda>j. raw ! (j * 2 + ch)) [0..<R * S]\<rparr>"
  by (simp add: select_channel_def)

lemma broadcast_index:
  fixes j :: nat
  assumes "j < R * S"
  shows "(if R = 1 then 0 else j div S) * S + (if S = 1 then 0 else j mod S) = j"
proof (cases "R = 1")
  case True
  then have "j < S" using assms by simp
  then show ?thesis using True by simp
next
  case False
  then show ?thesis by simp
qed

lemma broadcast_to_same_shape:
  assumes "nrows x = R" and "ncols x = S" and "length (flat x) = R * S"
  shows "broadcast_to R S x = Inr (flat x)"
proof -
  let ?f = "\<lambda>j. flat x ! ((if R = 1 then 0 else j div S) * S + (if S = 1 then 0 else j mod S))"
  have pt: "?f j = flat x ! j" if "j < R * S" for j
    by (simp only: broadcast_index [OF that])
  have "map ?f [0..<R * S] = map (\<lambda>j. flat x ! j) [0..<R * S]"
    by (rule map_cong) (simp_all only: pt atLeastLessThan_iff set_upt)
  also have "\<dots> = flat x"
    using assms(3) map_nth [of "flat x"] by simp
  finally show ?thesis
    unfolding broadcast_to_def by (simp only: assms(1,2) simp_thms if_True)
qed

lemma convert_channel:
  assumes out: "cells m a = Some out" and sh: "has_shape R S out"
  shows "\<exists>m1. subtract_into \<lparr>nrows = R, ncols = S, flat = map (\<lambda>j. raw ! (j * 2 + ch)) [0..<R * S]\<rparr>
                  32760 a m = Inr m1
            \<and> divide_inplace a 81900 m1 = Inr (store a (channel_volts ch R S raw) m)"
proof -
  let ?x = "\<lparr>nrows = R, ncols = S, flat = map (\<lambda>j. raw ! (j * 2 + ch)) [0..<R * S]\<rparr>"
  let ?m1 = "store a (out\<lparr>flat := map (\<lambda>v. v - 32760) (flat ?x)\<rparr>) m"
  have bc: "broadcast_to (nrows out) (ncols out) ?x = Inr (flat ?x)"
    using sh by (intro broadcast_to_same_shape) (simp_all add: has_shape_def)
  have sub: "subtract_into ?x 32760 a m = Inr ?m1"
    by (simp only: subtract_into_def out option.case bc sum.case)
  have arr: "out\<lparr>flat := map (\<lambda>v. v / 81900) (map (\<lambda>v. v - 32760) (flat ?x))\<rparr>
               = channel_volts ch R S raw"
    using sh by (simp add: channel_volts_def has_shape_def kernel_volt_def o_def)
  have "divide_inplace a 81900 ?m1 = Inr (store a (channel_volts ch R S raw) m)"
    using arr by (simp add: divide_inplace_def store_def)
  with sub show ?thesis by blast
qed

lemma cells_store_other: "a \<noteq> b \<Longrightarrow> cells (store a arr m) b = cells m b"
  by (simp add: store_def)

lemma cells_store_same: "cells (store a arr m) a = Some arr"
  by (simp add: store_def)

lemma next_free_store: "next_free (store a arr m) = next_free m"
  by (simp add: store_def)

lemma preparedD:
  assumes "prepared c m"
  obtains raw a b cha_A cha_B where
    "buffer c = Some raw" "cha_A_buffer c = Some a" "cha_B_buffer c = Some b"
    "length raw = samples_per_record c * records_per_buffer c * 2"
    "a \<noteq> b" "a < next_free m" "b < next_free m"
    "cells m a = Some cha_A" "cells m b = Some cha_B"
    "has_shape (records_per_buffer c) (samples_per_record c) cha_A"
    "has_shape (records_per_buffer c) (samples_per_record c) cha_B"
  using assms by (auto simp: prepared_def split: option.splits)

lemma numba_get_prepared:
  assumes "prepared c m" and "buffer c = Some raw"
    and "cha_A_buffer c = Some a" and "cha_B_buffer c = Some b"
  shows "numba_get_alldata_from_buffer_in_volt copy c m
           = return_buffers copy a b (converted c raw a b m)"
proof -
  from assms(1) obtain cha_A cha_B where
    len: "length raw = samples_per_record c * records_per_buffer c * 2"
    and A: "cells m a = Some cha_A" and B: "cells m b = Some cha_B"
    and shA: "has_shape (records_per_buffer c) (samples_per_record c) cha_A"
    and shB: "has_shape (records_per_buffer c) (samples_per_record c) cha_B"
    using assms(2-4) by (auto elim!: preparedD)
  show ?thesis
    by (simp add: numba_get_alldata_from_buffer_in_volt_def assms(2-4) A B
          process_buffer_prepared [OF shA shB len] converted_def)
qed

lemma numpy_get_prepared:
  assumes "prepared c m" and "buffer c = Some raw"
    and "cha_A_buffer c = Some a" and "cha_B_buffer c = Some b"
    and R: "0 < records_per_buffer c"
  shows "numpy_get_alldata_from_buffer_in_volt copy c m
           = return_buffers copy a b (converted c raw a b m)"
proof -
  let ?R = "records_per_buffer c" and ?S = "samples_per_record c"
  from assms(1) obtain cha_A cha_B where
    len: "length raw = ?S * ?R * 2" and ab: "a \<noteq> b"
    and A: "cells m a = Some cha_A" and B: "cells m b = Some cha_B"
    and shA: "has_shape ?R ?S cha_A" and shB: "has_shape ?R ?S cha_B"
    using assms(2-4) by (auto elim!: preparedD)
  let ?m2 = "store a (channel_volts 0 ?R ?S raw) m"
  obtain m1 where
    s1: "subtract_into \<lparr>nrows = ?R, ncols = ?S, flat = map (\<lambda>j. raw ! (j * 2 + 0)) [0..<?R * ?S]\<rparr>
           32760 a m = Inr m1"
    and d1: "divide_inplace a 81900 m1 = Inr ?m2"
    using convert_channel [OF A shA, of raw 0] by blast
  have B2: "cells ?m2 b = Some cha_B"
    using ab B by (simp add: cells_store_other)
  obtain m3 where
    s2: "subtract_into \<lparr>nrows = ?R, ncols = ?S, flat = map (\<lambda>j. raw ! (j * 2 + 1)) [0..<?R * ?S]\<rparr>
           32760 b ?m2 = Inr m3"
    and d2: "divide_inplace b 81900 m3 = Inr (store b (channel_volts 1 ?R ?S raw) ?m2)"
    using convert_channel [OF B2 shB, of raw 1] by blast
  have sc0: "select_channel \<lparr>dim0 = ?R, dim1 = ?S, dim2 = 2, flat3 = raw\<rparr> 0
               = Inr \<lparr>nrows = ?R, ncols = ?S, flat = map (\<lambda>j. raw ! (j * 2 + 0)) [0..<?R * ?S]\<rparr>"
    by (rule select_channel_reshaped) simp
  have sc1: "select_channel \<lparr>dim0 = ?R, dim1 = ?S, dim2 = 2, flat3 = raw\<rparr> 1
               = Inr \<lparr>nrows = ?R, ncols = ?S, flat = map (\<lambda>j. raw ! (j * 2 + 1)) [0..<?R * ?S]\<rparr>"
    by (rule select_channel_reshaped) simp
  show ?thesis
    unfolding numpy_get_alldata_from_buffer_in_volt_def
    by (simp only: assms(2-4) option.case reshape_infer_prepared [OF len R] sum.case
          sc0 sc1 s1 d1 s2 d2 converted_def)
qed

lemma numpy_get_no_records:
  assumes "buffer c = Some raw" and "records_per_buffer c = 0"
  shows "numpy_get_alldata_from_buffer_in_volt copy c m = (Inl ValueError, m)"
  using assms by (simp add: numpy_get_alldata_from_buffer_in_volt_def reshape_infer_def)

lemma cells_converted_A:
  "a \<noteq> b \<Longrightarrow> cells (converted c raw a b m) a
     = Some (channel_volts 0 (records_per_buffer c) (samples_per_record c) raw)"
  by (simp add: converted_def store_def)

lemma cells_converted_B:
  "cells (converted c raw a b m) b
     = Some (channel_volts 1 (records_per_buffer c) (samples_per_record c) raw)"
  by (simp add: converted_def store_def)

lemma cells_converted_other:
  "p \<noteq> a \<Longrightarrow> p \<noteq> b \<Longrightarrow> cells (converted c raw a b m) p = cells m p"
  by (simp add: converted_def store_def)

lemma next_free_converted: "next_free (converted c raw a b m) = next_free m"
  by (simp add: converted_def store_def)

lemma return_buffers_alias: "return_buffers False a b m = (Inr (a, b), m)"
  by (simp add: return_buffers_def)

lemma return_buffers_copy:
  assumes "cells m a = Some cha_A" and "cells m b = Some cha_B" and "b < next_free m"
  shows "return_buffers True a b m
           = (Inr (next_free m, Suc (next_free m)),
              m\<lparr>cells := (cells m)(next_free m \<mapsto> cha_A, Suc (next_free m) \<mapsto> cha_B),
                next_free := Suc (Suc (next_free m))\<rparr>)"
  using assms by (simp add: return_buffers_def copy_array_def alloc_def)

lemma return_buffers_frame:
  assumes "return_buffers copy a b m = (res, m')" and "p < next_free m"
  shows "cells m' p = cells m p"
  using assms
  by (auto simp: return_buffers_def copy_array_def alloc_def split: if_splits option.splits)

lemma return_buffers_next_free:
  assumes "return_buffers copy a b m = (res, m')"
  shows "next_free m \<le> next_free m'"
  using assms
  by (auto simp: return_buffers_def copy_array_def alloc_def split: if_splits option.splits)

lemma has_shape_channel_volts: "has_shape R S (channel_volts ch R S raw)"
  by (simp add: has_shape_def channel_volts_def)

lemma channel_volts_no_records: "channel_volts ch 0 S raw = channel_volts ch 0 S raw'"
  by (simp add: channel_volts_def)

lemma at2_channel_volts:
  assumes "r < R" and "s < S"
  shows "at2 (channel_volts ch R S raw) r s = kernel_volt (raw ! ((r * S + s) * 2 + ch))"
  using flat_index_bound [OF assms] by (simp add: at2_def channel_volts_def)

lemma get_alldata_prepared:
  assumes "prepared c m" and "buffer c = Some raw"
    and "cha_A_buffer c = Some a" and "cha_B_buffer c = Some b"
  shows "get_alldata strat copy c m =
           (if strat = Numpy \<and> records_per_buffer c = 0 then (Inl ValueError, m)
            else return_buffers copy a b (converted c raw a b m))"
proof (cases strat)
  case Numpy
  show ?thesis
  proof (cases "records_per_buffer c = 0")
    case True
    then show ?thesis
      using Numpy numpy_get_no_records [OF assms(2) True] by (simp add: get_alldata_def)
  next
    case False
    then have "0 < records_per_buffer c" by simp
    from numpy_get_prepared [OF assms this] show ?thesis
      using Numpy False by (simp add: get_alldata_def)
  qed
next
  case Numba
  then show ?thesis
    using numba_get_prepared [OF assms] by (simp add: get_alldata_def)
qed

lemma prepared_pre_start_capture:
  assumes "number_of_channels c = 2" and "pre_start_capture alazar c m = (c', m')"
  shows "prepared c' m'"
  using assms
  by (auto simp: pre_start_capture_def Let_def alloc_def prepared_def zeros_def zeros2_def
        has_shape_def)

lemma prepared_handle_buffer:
  assumes "prepared c m" and "handle_buffer d n c = Inr c'"
  shows "prepared c' m"
  using assms
  by (auto simp: handle_buffer_def iadd_def prepared_def split: option.splits if_splits)

lemma prepared_converted:
  assumes "prepared c m" and "cha_A_buffer c = Some a" and "cha_B_buffer c = Some b"
  shows "prepared c (converted c raw a b m)"
  using assms
  by (auto simp: prepared_def converted_def store_def has_shape_channel_volts split: option.splits)

lemma prepared_frame:
  assumes "prepared c m" and "cha_A_buffer c = Some a" and "cha_B_buffer c = Some b"
    and "cells m' a = cells m a" and "cells m' b = cells m b" and "next_free m \<le> next_free m'"
  shows "prepared c m'"
  using assms by (auto simp: prepared_def split: option.splits)

lemma prepared_get_alldata:
  assumes "prepared c m" and "get_alldata strat copy c m = (res, m')"
  shows "prepared c m'"
proof -
  from assms(1) obtain raw a b where
    raw: "buffer c = Some raw" and a: "cha_A_buffer c = Some a" and b: "cha_B_buffer c = Some b"
    by (auto elim!: preparedD)
  note out = get_alldata_prepared [OF assms(1) raw a b, of strat copy]
  show ?thesis
  proof (cases "strat = Numpy \<and> records_per_buffer c = 0")
    case True
    then show ?thesis using out assms by simp
  next
    case False
    let ?M = "converted c raw a b m"
    have rb: "return_buffers copy a b ?M = (res, m')"
      using out False assms(2) by simp
    have pM: "prepared c ?M" by (rule prepared_converted [OF assms(1) a b])
    then have "a < next_free ?M" and "b < next_free ?M"
      using a b by (auto elim!: preparedD)
    then show ?thesis
      using pM a b return_buffers_frame [OF rb] return_buffers_next_free [OF rb]
      by (intro prepared_frame [of c ?M a b m']) simp_all
  qed
qed

lemma returned_arrays_prepared:
  assumes "prepared c m" and "buffer c = Some raw"
    and "\<not> (strat = Numpy \<and> records_per_buffer c = 0)"
  shows "returned_arrays (get_alldata strat copy c m)
           = Some (channel_volts 0 (records_per_buffer c) (samples_per_record c) raw,
                   channel_volts 1 (records_per_buffer c) (samples_per_record c) raw)"
proof -
  from assms(1) obtain a b where
    a: "cha_A_buffer c = Some a" and b: "cha_B_buffer c = Some b" and ab: "a \<noteq> b"
    and bn: "b < next_free m"
    by (auto elim!: preparedD)
  let ?M = "converted c raw a b m"
  have out: "get_alldata strat copy c m = return_buffers copy a b ?M"
    using get_alldata_prepared [OF assms(1,2) a b, of strat copy] assms(3) by simp
  note cA = cells_converted_A [OF ab, of c raw m] and cB = cells_converted_B [of c raw a b m]
  show ?thesis
  proof (cases copy)
    case True
    have bM: "b < next_free ?M" using bn by (simp add: next_free_converted)
    have "get_alldata strat copy c m
            = (Inr (next_free ?M, Suc (next_free ?M)),
               ?M\<lparr>cells := (cells ?M)(next_free ?M \<mapsto>
                         channel_volts 0 (records_per_buffer c) (samples_per_record c) raw,
                       Suc (next_free ?M) \<mapsto>
                         channel_volts 1 (records_per_buffer c) (samples_per_record c) raw),
                 next_free := Suc (Suc (next_free ?M))\<rparr>)"
      using out True return_buffers_copy [OF cA cB bM] by simp
    then show ?thesis
      by (simp add: returned_arrays_def)
  next
    case False
    then have "get_alldata strat copy c m = (Inr (a, b), ?M)"
      using out by (simp add: return_buffers_alias)
    then show ?thesis
      by (simp add: returned_arrays_def cA cB)
  qed
qed

lemma prepared_fresh_session: "prepared (fst (fresh_session S R)) (snd (fresh_session S R))"
  by (rule prepared_pre_start_capture [of init_controller])
     (simp_all add: init_controller_def fresh_session_def)

lemma geometry_fresh_session:
  "records_per_buffer (fst (fresh_session S R)) = R"
  "samples_per_record (fst (fresh_session S R)) = S"
  "buffer (fst (fresh_session S R)) = Some (zeros (S * R * 2))"
  by (simp_all add: fresh_session_def pre_start_capture_def Let_def alloc_def init_controller_def
        split: prod.splits)

lemma length_example_raw: "length example_raw = 1024"
  by (simp add: example_raw_def length_concat sum_list_replicate)

lemma example_raw_unfold:
  "example_raw = [32760, 32760, 32840, 32680] @ concat (replicate 255 [32760, 32760, 32840, 32680])"
proof -
  have "replicate 256 [32760, 32760, 32840, 32680 :: real]
          = [32760, 32760, 32840, 32680] # replicate 255 [32760, 32760, 32840, 32680]"
    using replicate_Suc [of 255 "[32760, 32760, 32840, 32680 :: real]"] by simp
  then show ?thesis
    by (simp add: example_raw_def)
qed

lemma example_raw_head:
  "example_raw ! 0 = 32760" "example_raw ! 1 = 32760" "example_raw ! Suc 0 = 32760"
  "example_raw ! 2 = 32840" "example_raw ! 3 = 32680"
  by (simp_all add: example_raw_unfold nth_append numeral_2_eq_2 numeral_3_eq_3)

lemma take_example_raw: "take 4 example_raw = [32760, 32760, 32840, 32680]"
  by (simp add: example_raw_unfold)

lemma example_delivery:
  "handle_buffer example_raw (Some 0) (fst (fresh_session 256 2)) = Inr example_controller"
proof -
  have z: "zeros 1024 = zeros (length example_raw)"
    by (simp add: length_example_raw)
  have "iadd (zeros (length example_raw)) example_raw
          = Inr (map2 (+) (zeros (length example_raw)) example_raw)"
    by (rule iadd_same_length) (simp add: zeros_def)
  then show ?thesis
    by (simp add: handle_buffer_def geometry_fresh_session z map2_add_zeros
          example_controller_def)
qed

lemma prepared_example: "prepared example_controller example_memory"
  unfolding example_memory_def
  by (rule prepared_handle_buffer [OF prepared_fresh_session example_delivery])

lemma geometry_example:
  "records_per_buffer example_controller = 2"
  "samples_per_record example_controller = 256"
  "buffer example_controller = Some example_raw"
  by (simp_all add: example_controller_def geometry_fresh_session)

lemma has_shape_no_records:
  assumes "has_shape 0 S arr"
  shows "arr = channel_volts ch 0 S raw"
  using assms by (cases arr) (simp add: has_shape_def channel_volts_def)

lemma handle_buffer_changes_buffer_only:
  assumes "handle_buffer delivered n c = Inr c'"
  shows "\<exists>raw'. c' = c\<lparr>buffer := Some raw'\<rparr>"
  using assms by (auto simp: handle_buffer_def split: option.splits sum.splits)

lemma conversion_effect:
  assumes p: "prepared c m" and raw: "buffer c = Some raw"
    and a: "cha_A_buffer c = Some a" and b: "cha_B_buffer c = Some b"
    and run: "get_alldata strat copy c m = (res, m')"
  shows "cells m' a = Some (channel_volts 0 (records_per_buffer c) (samples_per_record c) raw)"
    and "cells m' b = Some (channel_volts 1 (records_per_buffer c) (samples_per_record c) raw)"
    and "p' < next_free m \<Longrightarrow> p' \<noteq> a \<Longrightarrow> p' \<noteq> b \<Longrightarrow> cells m' p' = cells m p'"
proof -
  let ?R = "records_per_buffer c" and ?S = "samples_per_record c"
  from p a b obtain cha_A cha_B where
    ab: "a \<noteq> b" and an: "a < next_free m" and bn: "b < next_free m"
    and A: "cells m a = Some cha_A" and B: "cells m b = Some cha_B"
    and shA: "has_shape ?R ?S cha_A" and shB: "has_shape ?R ?S cha_B"
    by (auto elim!: preparedD)
  note out = get_alldata_prepared [OF p raw a b, of strat copy]
  let ?M = "converted c raw a b m"
  have "cells m' a = Some (channel_volts 0 ?R ?S raw)
      \<and> cells m' b = Some (channel_volts 1 ?R ?S raw)
      \<and> (p' < next_free m \<longrightarrow> p' \<noteq> a \<longrightarrow> p' \<noteq> b \<longrightarrow> cells m' p' = cells m p')"
  proof (cases "strat = Numpy \<and> ?R = 0")
    case True
    then have "get_alldata strat copy c m = (Inl ValueError, m)" using out by simp
    with run have m': "m' = m" by simp
    have "cha_A = channel_volts 0 0 ?S raw" and "cha_B = channel_volts 1 0 ?S raw"
      using shA shB True by (simp_all add: has_shape_no_records)
    then show ?thesis using m' A B True by simp
  next
    case False
    then have "get_alldata strat copy c m = return_buffers copy a b ?M"
      by (simp only: out if_False)
    with run have rb: "return_buffers copy a b ?M = (res, m')" by simp
    have fr: "\<And>q. q < next_free m \<Longrightarrow> cells m' q = cells ?M q"
      using return_buffers_frame [OF rb] by (simp add: next_free_converted)
    show ?thesis
      using fr an bn cells_converted_A [OF ab, of c raw m] cells_converted_B [of c raw a b m]
        cells_converted_other [of p' a b c raw m]
      by simp
  qed
  then show "cells m' a = Some (channel_volts 0 ?R ?S raw)"
    and "cells m' b = Some (channel_volts 1 ?R ?S raw)"
    and "p' < next_free m \<Longrightarrow> p' \<noteq> a \<Longrightarrow> p' \<noteq> b \<Longrightarrow> cells m' p' = cells m p'"
    by simp_all
qed

lemma conversion_result:
  assumes p: "prepared c m" and raw: "buffer c = Some raw"
    and a: "cha_A_buffer c = Some a" and b: "cha_B_buffer c = Some b"
    and run: "get_alldata strat copy c m = (Inr (pa, pb), m')"
  shows "\<not> copy \<Longrightarrow> pa = a \<and> pb = b"
    and "copy \<Longrightarrow> pa = next_free m \<and> pb = Suc (next_free m) \<and> Suc (Suc (next_free m)) \<le> next_free m'"
proof -
  from p a b have ab: "a \<noteq> b" and bn: "b < next_free m"
    by (auto elim!: preparedD)
  let ?M = "converted c raw a b m"
  have rb: "return_buffers copy a b ?M = (Inr (pa, pb), m')"
  proof (cases "strat = Numpy \<and> records_per_buffer c = 0")
    case True
    then have "get_alldata strat copy c m = (Inl ValueError, m)"
      using get_alldata_prepared [OF p raw a b, of strat copy] by simp
    with run show ?thesis by simp
  next
    case False
    then have "get_alldata strat copy c m = return_buffers copy a b ?M"
      by (simp only: get_alldata_prepared [OF p raw a b, of strat copy] if_False)
    with run show ?thesis by simp
  qed
  show "\<not> copy \<Longrightarrow> pa = a \<and> pb = b"
    using rb by (simp add: return_buffers_alias)
  have bM: "b < next_free ?M" using bn by (simp add: next_free_converted)
  show "copy \<Longrightarrow> pa = next_free m \<and> pb = Suc (next_free m) \<and> Suc (Suc (next_free m)) \<le> next_free m'"
    using rb return_buffers_copy [OF cells_converted_A [OF ab, of c raw m]
        cells_converted_B [of c raw a b m] bM]
    by (auto simp: next_free_converted)
qed

lemma addresses_fresh_session:
  "cha_A_buffer (fst (fresh_session S R)) = Some 0"
  "cha_B_buffer (fst (fresh_session S R)) = Some 1"
  "next_free (snd (fresh_session S R)) = 2"
  by (simp_all add: fresh_session_def pre_start_capture_def Let_def alloc_def init_controller_def
        empty_memory_def split: prod.splits)

lemma get_alldata_fresh_session:
  "fst (get_alldata Numba True (fst (fresh_session S R)) (snd (fresh_session S R))) = Inr (2, 3)"
  "fst (get_alldata Numba False (fst (fresh_session S R)) (snd (fresh_session S R))) = Inr (0, 1)"
proof -
  let ?c = "fst (fresh_session S R)" and ?m = "snd (fresh_session S R)"
  let ?M = "converted ?c (zeros (S * R * 2)) 0 1 ?m"
  note out = get_alldata_prepared [OF prepared_fresh_session geometry_fresh_session(3)
      addresses_fresh_session(1,2)]
  have n: "next_free ?M = 2"
    by (simp add: next_free_converted addresses_fresh_session)
  have cA: "cells ?M 0 = Some (channel_volts 0 R S (zeros (S * R * 2)))"
    using cells_converted_A [of 0 1 ?c "zeros (S * R * 2)" ?m]
    by (simp add: geometry_fresh_session)
  have cB: "cells ?M 1 = Some (channel_volts 1 R S (zeros (S * R * 2)))"
    using cells_converted_B [of ?c "zeros (S * R * 2)" 0 1 ?m]
    by (simp add: geometry_fresh_session)
  have bM: "1 < next_free ?M" unfolding n by simp
  have "return_buffers True 0 1 ?M
          = (Inr (next_free ?M, Suc (next_free ?M)),
             ?M\<lparr>cells := (cells ?M)(next_free ?M \<mapsto> channel_volts 0 R S (zeros (S * R * 2)),
                     Suc (next_free ?M) \<mapsto> channel_volts 1 R S (zeros (S * R * 2))),
               next_free := Suc (Suc (next_free ?M))\<rparr>)"
    by (rule return_buffers_copy [OF cA cB bM])
  then have rb: "fst (return_buffers True 0 1 ?M) = Inr (2, 3)"
    unfolding n by simp
  have "get_alldata Numba True ?c ?m = return_buffers True 0 1 ?M"
    using out [of Numba True] by simp
  then show "fst (get_alldata Numba True ?c ?m) = Inr (2, 3)"
    using rb by (simp only:)
  have "get_alldata Numba False ?c ?m = return_buffers False 0 1 ?M"
    using out [of Numba False] by simp
  then show "fst (get_alldata Numba False ?c ?m) = Inr (0, 1)"
    by (simp only: return_buffers_alias fst_conv)
qed

lemma example_volts_differ:
  "channel_volts 0 2 256 example_raw \<noteq> channel_volts 0 2 256 (zeros 1024)"
proof
  assume "channel_volts 0 2 256 example_raw = channel_volts 0 2 256 (zeros 1024)"
  then have "at2 (channel_volts 0 2 256 example_raw) 0 0 = at2 (channel_volts 0 2 256 (zeros 1024)) 0 0"
    by simp
  moreover have "at2 (channel_volts 0 2 256 example_raw) 0 0 = kernel_volt (example_raw ! ((0 * 256 + 0) * 2 + 0))"
    by (rule at2_channel_volts) simp_all
  moreover have "at2 (channel_volts 0 2 256 (zeros 1024)) 0 0 = kernel_volt (zeros 1024 ! ((0 * 256 + 0) * 2 + 0))"
    by (rule at2_channel_volts) simp_all
  ultimately show False
    by (simp add: example_raw_head kernel_volt_def zeros_def)
qed

lemma get_alldata_next_free:
  assumes p: "prepared c m" and run: "get_alldata strat copy c m = (res, m')"
  shows "next_free m \<le> next_free m'"
proof -
  from p obtain raw a b where
    raw: "buffer c = Some raw" and a: "cha_A_buffer c = Some a" and b: "cha_B_buffer c = Some b"
    by (auto elim!: preparedD)
  note out = get_alldata_prepared [OF p raw a b, of strat copy]
  show ?thesis
  proof (cases "strat = Numpy \<and> records_per_buffer c = 0")
    case True
    then have "get_alldata strat copy c m = (Inl ValueError, m)" using out by simp
    with run show ?thesis by simp
  next
    case False
    then have "get_alldata strat copy c m = return_buffers copy a b (converted c raw a b m)"
      by (simp only: out if_False)
    with run have "return_buffers copy a b (converted c raw a b m) = (res, m')" by simp
    from return_buffers_next_free [OF this] show ?thesis
      by (simp add: next_free_converted)
  qed
qed

lemma run_op_frame:
  assumes p: "prepared c m" and a: "cha_A_buffer c = Some a" and b: "cha_B_buffer c = Some b"
    and run: "run_op op (c, m) = (c', m')"
  shows "prepared c' m' \<and> cha_A_buffer c' = Some a \<and> cha_B_buffer c' = Some b
       \<and> records_per_buffer c' = records_per_buffer c
       \<and> samples_per_record c' = samples_per_record c
       \<and> next_free m \<le> next_free m'
       \<and> (\<forall>q. q < next_free m \<and> q \<noteq> a \<and> q \<noteq> b \<longrightarrow> cells m' q = cells m q)"
proof (cases op)
  case (Deliver delivered n)
  show ?thesis
  proof (cases "handle_buffer delivered n c")
    case (Inl e)
    then have "c' = c" and "m' = m" using run Deliver by simp_all
    then show ?thesis using p a b by simp
  next
    case (Inr c1)
    then have c': "c' = c1" and m': "m' = m" using run Deliver by simp_all
    from handle_buffer_changes_buffer_only [OF Inr] obtain x where "c1 = c\<lparr>buffer := Some x\<rparr>"
      by blast
    then show ?thesis
      using prepared_handle_buffer [OF p Inr] a b c' m' by simp
  qed
next
  case (Convert strat copy)
  then have c': "c' = c" and m': "m' = snd (get_alldata strat copy c m)"
    using run by auto
  have g: "get_alldata strat copy c m = (fst (get_alldata strat copy c m), m')"
    using m' by simp
  from p a b obtain raw where raw: "buffer c = Some raw"
    by (auto elim!: preparedD)
  have "\<forall>q. q < next_free m \<and> q \<noteq> a \<and> q \<noteq> b \<longrightarrow> cells m' q = cells m q"
    using conversion_effect(3) [OF p raw a b g] by blast
  then show ?thesis
    using prepared_get_alldata [OF p g] get_alldata_next_free [OF p g] a b c' by simp
qed

lemma run_ops_frame:
  assumes "prepared c m" and "cha_A_buffer c = Some a" and "cha_B_buffer c = Some b"
    and "run_ops ops (c, m) = (c', m')"
  shows "prepared c' m' \<and> cha_A_buffer c' = Some a \<and> cha_B_buffer c' = Some b
       \<and> records_per_buffer c' = records_per_buffer c
       \<and> samples_per_record c' = samples_per_record c
       \<and> next_free m \<le> next_free m'
       \<and> (\<forall>q. q < next_free m \<and> q \<noteq> a \<and> q \<noteq> b \<longrightarrow> cells m' q = cells m q)"
  using assms
proof (induction ops arbitrary: c m)
  case Nil
  then show ?case by simp
next
  case (Cons op ops)
  obtain c1 m1 where step: "run_op op (c, m) = (c1, m1)" by (cases "run_op op (c, m)")
  note f = run_op_frame [OF Cons.prems(1-3) step]
  have rest: "run_ops ops (c1, m1) = (c', m')" using Cons.prems(4) step by simp
  from f have p1: "prepared c1 m1" and a1: "cha_A_buffer c1 = Some a"
    and b1: "cha_B_buffer c1 = Some b" by simp_all
  note g = Cons.IH [OF p1 a1 b1 rest]
  have "\<forall>q. q < next_free m \<and> q \<noteq> a \<and> q \<noteq> b \<longrightarrow> cells m' q = cells m q"
  proof (intro allI impI)
    fix q assume q: "q < next_free m \<and> q \<noteq> a \<and> q \<noteq> b"
    then have "q < next_free m1" using f by simp
    then have "cells m' q = cells m1 q" using g q by simp
    then show "cells m' q = cells m q" using f q by simp
  qed
  then show ?case using f g by simp
qed

section \<open>The claims about the conversion\<close>

text \<open>
  C4 on the card's own raw codes. On the uint16 code 100 the subtraction wraps to 32876, so
  \<open>signal_to_volt\<close> returns the rounding of \<open>32876 / 81900\<close>, about \<open>+0.4014\<close>, while
  \<open>(100 - 32760) / 81900\<close> is about \<open>-0.3988\<close>; on the uint16 code 0, which the docstring
  calls -400 mV, it returns the rounding of \<open>32776 / 81900\<close>, about \<open>+0.4002\<close>. On the same
  codes given as doubles the roundings are applied to the claimed difference and quotient.
\<close>

theorem signal_to_volt_wraps_on_uint16:
  "signal_to_volt rnd (UInt16 100) = rnd (32876 / 81900)
   \<and> (32876 / 81900 :: real) > 0.4
   \<and> ((100 - 32760) / 81900 :: real) < - 0.39
   \<and> signal_to_volt rnd (UInt16 0) = rnd (32776 / 81900)
   \<and> (32776 / 81900 :: real) > 0.4
   \<and> signal_to_volt rnd (Float64 100) = rnd (rnd (100 - 32760) / 81900)
   \<and> signal_to_volt rnd (Float64 0) = rnd (rnd (0 - 32760) / 81900)"
  by (simp add: signal_to_volt_def)

text \<open>
  With at least one record per buffer, and in the exact arithmetic of this model, the
  vectorized method and the compiled-kernel method give the same result and leave the same
  store when called with the same \<open>copy\<close> flag on the same prepared session, and return the
  same two arrays whatever the two flags.
\<close>

lemma strategies_agree_with_records:
  assumes "prepared c m" and "0 < records_per_buffer c"
  shows "numpy_get_alldata_from_buffer_in_volt copy c m
           = numba_get_alldata_from_buffer_in_volt copy c m
       \<and> (\<exists>cha_A cha_B.
             returned_arrays (numpy_get_alldata_from_buffer_in_volt copy c m) = Some (cha_A, cha_B)
           \<and> returned_arrays (numba_get_alldata_from_buffer_in_volt copy' c m) = Some (cha_A, cha_B))"
proof -
  from assms(1) obtain raw a b where
    raw: "buffer c = Some raw" and a: "cha_A_buffer c = Some a" and b: "cha_B_buffer c = Some b"
    by (auto elim!: preparedD)
  have same: "numpy_get_alldata_from_buffer_in_volt copy c m
                = numba_get_alldata_from_buffer_in_volt copy c m"
    using numpy_get_prepared [OF assms(1) raw a b assms(2)] numba_get_prepared [OF assms(1) raw a b]
    by simp
  have np: "returned_arrays (get_alldata Numpy copy c m)
              = Some (channel_volts 0 (records_per_buffer c) (samples_per_record c) raw,
                      channel_volts 1 (records_per_buffer c) (samples_per_record c) raw)"
    using assms(2) by (intro returned_arrays_prepared [OF assms(1) raw]) simp
  have nb: "returned_arrays (get_alldata Numba copy' c m)
              = Some (channel_volts 0 (records_per_buffer c) (samples_per_record c) raw,
                      channel_volts 1 (records_per_buffer c) (samples_per_record c) raw)"
    by (intro returned_arrays_prepared [OF assms(1) raw]) simp
  show ?thesis
    using same np nb by (simp add: get_alldata_def)
qed

text \<open>
  C2 at the geometry with no record. In the session prepared for 256 samples per record and
  0 records per buffer, whose raw buffer has the length \<open>256 * 0 * 2 = 0\<close> that the geometry
  asks for, the vectorized method raises \<open>ValueError\<close> (the reshape cannot infer the middle
  dimension) while the compiled-kernel method returns two empty arrays of shape \<open>(0, 256)\<close>.
\<close>

theorem strategies_differ_without_records:
  "prepared (fst (fresh_session 256 0)) (snd (fresh_session 256 0))
   \<and> buffer (fst (fresh_session 256 0)) = Some []
   \<and> fst (numpy_get_alldata_from_buffer_in_volt True (fst (fresh_session 256 0)) (snd (fresh_session 256 0)))
       = Inl ValueError
   \<and> returned_arrays
       (numpy_get_alldata_from_buffer_in_volt True (fst (fresh_session 256 0)) (snd (fresh_session 256 0)))
       = None
   \<and> returned_arrays
       (numba_get_alldata_from_buffer_in_volt True (fst (fresh_session 256 0)) (snd (fresh_session 256 0)))
       = Some (\<lparr>nrows = 0, ncols = 256, flat = []\<rparr>, \<lparr>nrows = 0, ncols = 256, flat = []\<rparr>)"
proof -
  let ?c = "fst (fresh_session 256 0)" and ?m = "snd (fresh_session 256 0)"
  have p: "prepared ?c ?m" by (rule prepared_fresh_session)
  have raw: "buffer ?c = Some []" by (simp add: geometry_fresh_session zeros_def)
  have R: "records_per_buffer ?c = 0" by (simp add: geometry_fresh_session)
  have np: "numpy_get_alldata_from_buffer_in_volt True ?c ?m = (Inl ValueError, ?m)"
    by (rule numpy_get_no_records [OF raw R])
  have nb: "returned_arrays (get_alldata Numba True ?c ?m)
              = Some (channel_volts 0 (records_per_buffer ?c) (samples_per_record ?c) [],
                      channel_volts 1 (records_per_buffer ?c) (samples_per_record ?c) [])"
    by (intro returned_arrays_prepared [OF p raw]) simp
  show ?thesis
    using p raw np nb
    by (simp add: returned_arrays_def get_alldata_def geometry_fresh_session channel_volts_def)
qed

text \<open>
  C3, as amended. In every prepared session with raw buffer \<open>raw\<close>, for every record index
  \<open>r\<close> and sample index \<open>s\<close> within the geometry, both methods succeed and return the same
  two arrays, with the voltage of \<open>raw[(r * samples_per_record + s) * 2]\<close> at \<open>[r, s]\<close> of
  channel A and the voltage of \<open>raw[(r * samples_per_record + s) * 2 + 1]\<close> at \<open>[r, s]\<close> of
  channel B. For the geometry of 256 samples and 2 records and the raw buffer
  \<open>[32760, 32760, 32840, 32680, ...]\<close> this gives 0 for sample 0 of both channels, about
  0.000977 for sample 1 of channel A and about -0.000977 for sample 1 of channel B, which is
  what the theorem below it derives from this one.
\<close>

theorem conversion_places_samples:
  assumes "prepared c m" and "buffer c = Some raw"
    and "r < records_per_buffer c" and "s < samples_per_record c"
  shows "\<exists>cha_A cha_B.
           returned_arrays (numpy_get_alldata_from_buffer_in_volt copy c m) = Some (cha_A, cha_B)
         \<and> returned_arrays (numba_get_alldata_from_buffer_in_volt copy' c m) = Some (cha_A, cha_B)
         \<and> at2 cha_A r s = kernel_volt (raw ! ((r * samples_per_record c + s) * 2))
         \<and> at2 cha_B r s = kernel_volt (raw ! ((r * samples_per_record c + s) * 2 + 1))"
proof -
  let ?R = "records_per_buffer c" and ?S = "samples_per_record c"
  have R: "\<not> (Numpy = Numpy \<and> ?R = 0)" using assms(3) by simp
  have np: "returned_arrays (get_alldata Numpy copy c m)
              = Some (channel_volts 0 ?R ?S raw, channel_volts 1 ?R ?S raw)"
    using assms(3) by (intro returned_arrays_prepared [OF assms(1,2)]) simp
  have nb: "returned_arrays (get_alldata Numba copy' c m)
              = Some (channel_volts 0 ?R ?S raw, channel_volts 1 ?R ?S raw)"
    by (intro returned_arrays_prepared [OF assms(1,2)]) simp
  show ?thesis
    using np nb at2_channel_volts [OF assms(3,4), of 0 raw] at2_channel_volts [OF assms(3,4), of 1 raw]
    by (simp add: get_alldata_def)
qed

theorem conversion_places_samples_witness:
  "prepared example_controller example_memory
   \<and> buffer example_controller = Some example_raw
   \<and> (\<exists>cha_A cha_B.
         returned_arrays (numpy_get_alldata_from_buffer_in_volt True example_controller example_memory)
           = Some (cha_A, cha_B)
       \<and> returned_arrays (numba_get_alldata_from_buffer_in_volt True example_controller example_memory)
           = Some (cha_A, cha_B)
       \<and> at2 cha_A 0 0 = 0 \<and> at2 cha_B 0 0 = 0
       \<and> at2 cha_A 0 1 = 80 / 81900 \<and> at2 cha_B 0 1 = - 80 / 81900
       \<and> \<bar>at2 cha_A 0 1 - 0.000977\<bar> < 0.000001
       \<and> \<bar>at2 cha_B 0 1 - (- 0.000977)\<bar> < 0.000001)"
proof -
  have s0: "(0::nat) < samples_per_record example_controller"
    and s1: "(1::nat) < samples_per_record example_controller"
    and r0: "(0::nat) < records_per_buffer example_controller"
    by (simp_all add: geometry_example)
  note raw = geometry_example(3)
  from conversion_places_samples [OF prepared_example raw r0 s0, of True True]
  obtain cha_A cha_B where
    np: "returned_arrays (numpy_get_alldata_from_buffer_in_volt True example_controller example_memory)
           = Some (cha_A, cha_B)"
    and nb: "returned_arrays (numba_get_alldata_from_buffer_in_volt True example_controller example_memory)
           = Some (cha_A, cha_B)"
    and a00: "at2 cha_A 0 0 = kernel_volt (example_raw ! 0)"
    and b00: "at2 cha_B 0 0 = kernel_volt (example_raw ! 1)"
    by auto
  from conversion_places_samples [OF prepared_example raw r0 s1, of True True] np
  have a01: "at2 cha_A 0 1 = kernel_volt (example_raw ! 2)"
    and b01: "at2 cha_B 0 1 = kernel_volt (example_raw ! 3)"
    by (auto simp: numeral_3_eq_3)
  have vals: "at2 cha_A 0 0 = 0" "at2 cha_B 0 0 = 0"
    "at2 cha_A 0 1 = 80 / 81900" "at2 cha_B 0 1 = - 80 / 81900"
    unfolding a00 b00 a01 b01 example_raw_head kernel_volt_def by simp_all
  have approx: "\<bar>at2 cha_A 0 1 - 0.000977\<bar> < 0.000001" "\<bar>at2 cha_B 0 1 - (- 0.000977)\<bar> < 0.000001"
    unfolding vals by simp_all
  show ?thesis
    using prepared_example raw np nb vals approx by blast
qed

text \<open>
  C3 as stated fails in its example: the second raw element is 32760, so sample 0 of
  record 0 of channel B is 0, which is not within \<open>0.000001\<close> of \<open>-0.000977\<close>.
\<close>

theorem channel_B_first_sample_is_zero:
  "prepared example_controller example_memory
   \<and> buffer example_controller = Some example_raw
   \<and> take 4 example_raw = [32760, 32760, 32840, 32680]
   \<and> map_option (\<lambda>(cha_A, cha_B). at2 cha_B 0 0)
       (returned_arrays (numpy_get_alldata_from_buffer_in_volt True example_controller example_memory))
       = Some 0
   \<and> map_option (\<lambda>(cha_A, cha_B). at2 cha_B 0 0)
       (returned_arrays (numba_get_alldata_from_buffer_in_volt True example_controller example_memory))
       = Some 0
   \<and> \<not> \<bar>(0::real) - (- 0.000977)\<bar> < 0.000001"
proof -
  let ?c = example_controller and ?m = example_memory
  have np: "returned_arrays (get_alldata Numpy True ?c ?m)
              = Some (channel_volts 0 2 256 example_raw, channel_volts 1 2 256 example_raw)"
    using returned_arrays_prepared [OF prepared_example geometry_example(3), of Numpy True]
    by (simp add: geometry_example)
  have nb: "returned_arrays (get_alldata Numba True ?c ?m)
              = Some (channel_volts 0 2 256 example_raw, channel_volts 1 2 256 example_raw)"
    using returned_arrays_prepared [OF prepared_example geometry_example(3), of Numba True]
    by (simp add: geometry_example)
  have b00: "at2 (channel_volts 1 2 256 example_raw) 0 0 = 0"
  proof -
    have "at2 (channel_volts 1 2 256 example_raw) 0 0
            = kernel_volt (example_raw ! ((0 * 256 + 0) * 2 + 1))"
      by (rule at2_channel_volts) simp_all
    then show ?thesis
      by (simp add: example_raw_head kernel_volt_def)
  qed
  note tk = take_example_raw
  show ?thesis
    using prepared_example geometry_example(3) np nb b00 tk
    by (simp add: get_alldata_def)
qed

text \<open>
  C6. Take a prepared session with raw buffer \<open>raw\<close>, a conversion (either method) that
  returns the addresses \<open>pa\<close>, \<open>pb\<close>, then any sequence of buffer deliveries and conversions,
  then one more conversion (either method, either \<open>copy\<close> flag, successful or not). If the
  first conversion was called with \<open>copy=True\<close>, the two returned arrays hold the conversion of
  \<open>raw\<close>, and they are the same after the sequence and after the last conversion. If it was
  called with \<open>copy=False\<close>, the two returned arrays are the session's own channel buffers,
  and after the last conversion they hold the conversion of the raw buffer as it is then.
\<close>

theorem copy_is_snapshot_and_view_is_alias:
  assumes p: "prepared c m" and raw: "buffer c = Some raw"
    and first: "get_alldata strat copy c m = (Inr (pa, pb), m1)"
    and later: "run_ops ops (c, m1) = (c', m')"
    and raw': "buffer c' = Some raw'"
    and second: "get_alldata strat' copy' c' m' = (res, m2)"
  shows "(copy \<longrightarrow>
            cells m1 pa = Some (channel_volts 0 (records_per_buffer c) (samples_per_record c) raw)
          \<and> cells m1 pb = Some (channel_volts 1 (records_per_buffer c) (samples_per_record c) raw)
          \<and> cells m' pa = cells m1 pa \<and> cells m' pb = cells m1 pb
          \<and> cells m2 pa = cells m1 pa \<and> cells m2 pb = cells m1 pb)
       \<and> (\<not> copy \<longrightarrow>
            cha_A_buffer c = Some pa \<and> cha_B_buffer c = Some pb
          \<and> cells m2 pa = Some (channel_volts 0 (records_per_buffer c) (samples_per_record c) raw')
          \<and> cells m2 pb = Some (channel_volts 1 (records_per_buffer c) (samples_per_record c) raw'))"
proof -
  let ?R = "records_per_buffer c" and ?S = "samples_per_record c"
  from p obtain a b where
    a: "cha_A_buffer c = Some a" and b: "cha_B_buffer c = Some b"
    and an: "a < next_free m" and bn: "b < next_free m"
    using raw by (auto elim!: preparedD)
  have p1: "prepared c m1" by (rule prepared_get_alldata [OF p first])
  note fr = run_ops_frame [OF p1 a b later]
  from fr have p': "prepared c' m'" and a': "cha_A_buffer c' = Some a"
    and b': "cha_B_buffer c' = Some b"
    and geo: "records_per_buffer c' = ?R" "samples_per_record c' = ?S"
    and nf': "next_free m1 \<le> next_free m'"
    by simp_all
  note eff2 = conversion_effect [OF p' raw' a' b' second, unfolded geo]
  show ?thesis
  proof (intro conjI impI)
    assume copy
    from conversion_result(2) [OF p raw a b first this]
    have pa: "pa = next_free m" and pb: "pb = Suc (next_free m)"
      and nf: "Suc (Suc (next_free m)) \<le> next_free m1"
      by simp_all
    have ok: "\<not> (strat = Numpy \<and> ?R = 0)"
    proof
      assume "strat = Numpy \<and> ?R = 0"
      then have "get_alldata strat copy c m = (Inl ValueError, m)"
        using get_alldata_prepared [OF p raw a b, of strat copy] by simp
      with first show False by simp
    qed
    have "returned_arrays (get_alldata strat copy c m)
            = Some (channel_volts 0 ?R ?S raw, channel_volts 1 ?R ?S raw)"
      by (rule returned_arrays_prepared [OF p raw ok])
    then show "cells m1 pa = Some (channel_volts 0 ?R ?S raw)"
      and "cells m1 pb = Some (channel_volts 1 ?R ?S raw)"
      using first by (auto simp: returned_arrays_def split: option.splits)
    show keep_a: "cells m' pa = cells m1 pa" and keep_b: "cells m' pb = cells m1 pb"
      using fr pa pb nf an bn by simp_all
    show "cells m2 pa = cells m1 pa"
      using eff2(3) [of pa] keep_a pa nf nf' an bn by simp
    show "cells m2 pb = cells m1 pb"
      using eff2(3) [of pb] keep_b pb nf nf' an bn by simp
  next
    assume "\<not> copy"
    from conversion_result(1) [OF p raw a b first this]
    have pa: "pa = a" and pb: "pb = b" by simp_all
    show "cha_A_buffer c = Some pa" "cha_B_buffer c = Some pb"
      using a b pa pb by simp_all
    show "cells m2 pa = Some (channel_volts 0 ?R ?S raw')"
      using eff2(1) pa by simp
    show "cells m2 pb = Some (channel_volts 1 ?R ?S raw')"
      using eff2(2) pb by simp
  qed
qed

theorem copy_is_snapshot_and_view_is_alias_witness:
  "prepared (fst (fresh_session 256 2)) (snd (fresh_session 256 2))
   \<and> fst (get_alldata Numba True (fst (fresh_session 256 2)) (snd (fresh_session 256 2))) = Inr (2, 3)
   \<and> run_ops [Deliver example_raw (Some 0)]
        (fst (fresh_session 256 2),
         snd (get_alldata Numba True (fst (fresh_session 256 2)) (snd (fresh_session 256 2))))
       = (example_controller,
          snd (get_alldata Numba True (fst (fresh_session 256 2)) (snd (fresh_session 256 2))))
   \<and> cells (snd (get_alldata Numpy False example_controller
               (snd (get_alldata Numba True (fst (fresh_session 256 2)) (snd (fresh_session 256 2)))))) 2
       = Some (channel_volts 0 2 256 (zeros 1024))
   \<and> fst (get_alldata Numba False (fst (fresh_session 256 2)) (snd (fresh_session 256 2))) = Inr (0, 1)
   \<and> cells (snd (get_alldata Numba False (fst (fresh_session 256 2)) (snd (fresh_session 256 2)))) 0
       = Some (channel_volts 0 2 256 (zeros 1024))
   \<and> cells (snd (get_alldata Numpy False example_controller
               (snd (get_alldata Numba False (fst (fresh_session 256 2)) (snd (fresh_session 256 2)))))) 0
       = Some (channel_volts 0 2 256 example_raw)
   \<and> channel_volts 0 2 256 example_raw \<noteq> channel_volts 0 2 256 (zeros 1024)"
proof -
  let ?c = "fst (fresh_session 256 2)" and ?m = "snd (fresh_session 256 2)"
  let ?snap = "get_alldata Numba True ?c ?m" and ?view = "get_alldata Numba False ?c ?m"
  have p: "prepared ?c ?m" by (rule prepared_fresh_session)
  have raw: "buffer ?c = Some (zeros 1024)" by (simp add: geometry_fresh_session)
  have f1: "?snap = (Inr (2, 3), snd ?snap)"
    using get_alldata_fresh_session(1) [of 256 2] by (simp add: prod_eq_iff)
  have f2: "?view = (Inr (0, 1), snd ?view)"
    using get_alldata_fresh_session(2) [of 256 2] by (simp add: prod_eq_iff)
  have d: "\<And>m. run_ops [Deliver example_raw (Some 0)] (?c, m) = (example_controller, m)"
    by (simp add: example_delivery)
  have s1: "get_alldata Numpy False example_controller (snd ?snap)
              = (fst (get_alldata Numpy False example_controller (snd ?snap)),
                 snd (get_alldata Numpy False example_controller (snd ?snap)))"
    and s2: "get_alldata Numpy False example_controller (snd ?view)
              = (fst (get_alldata Numpy False example_controller (snd ?view)),
                 snd (get_alldata Numpy False example_controller (snd ?view)))"
    by simp_all
  note w1 = copy_is_snapshot_and_view_is_alias [OF p raw f1 d geometry_example(3) s1]
  note w2 = copy_is_snapshot_and_view_is_alias [OF p raw f2 d geometry_example(3) s2]
  have v0: "cells (snd ?view) 0 = Some (channel_volts 0 2 256 (zeros 1024))"
    using conversion_effect(1) [OF p raw addresses_fresh_session(1,2) f2]
    by (simp add: geometry_fresh_session)
  have c1: "cells (snd (get_alldata Numpy False example_controller (snd ?snap))) 2
              = Some (channel_volts 0 2 256 (zeros 1024))"
    using w1 by (simp add: geometry_fresh_session)
  have c2: "cells (snd (get_alldata Numpy False example_controller (snd ?view))) 0
              = Some (channel_volts 0 2 256 example_raw)"
    using w2 by (simp add: geometry_fresh_session)
  show ?thesis
    using p get_alldata_fresh_session [of 256 2] d c1 c2 v0 example_volts_differ
    by (intro conjI)
qed

section \<open>The trigger holdoff getter and setter\<close>

lemma parse_version_examples:
  "parse_version ''30.04'' = Some [30, 4]"
  "parse_version ''29.10'' = Some [29, 10]"
  "parse_version ''31.0'' = Some [31]"
  "parse_version ''unknown'' = None"
  by (simp_all add: parse_version_def parse_component_def is_digit_def digit_value_def
        strip_trailing_zeros_def)

lemma bin_digits_upper: "n < 2 ^ length (bin_digits n)"
proof (induction n rule: bin_digits.induct)
  case (1 n)
  show ?case
  proof (cases "n < 2")
    case True
    then show ?thesis by (subst bin_digits.simps) simp
  next
    case False
    then have "n div 2 < 2 ^ length (bin_digits (n div 2))" using "1.IH" by simp
    then have "n < 2 * 2 ^ length (bin_digits (n div 2))" by linarith
    then show ?thesis using False by (subst bin_digits.simps) simp
  qed
qed

lemma bin_digits_lower: "0 < n \<Longrightarrow> 2 ^ (length (bin_digits n) - 1) \<le> n"
proof (induction n rule: bin_digits.induct)
  case (1 n)
  show ?case
  proof (cases "n < 2")
    case True
    then show ?thesis using "1.prems" by (subst bin_digits.simps) simp
  next
    case False
    then have pos: "0 < n div 2" by simp
    have len: "0 < length (bin_digits (n div 2))"
      by (subst bin_digits.simps) simp
    have "2 ^ (length (bin_digits (n div 2)) - 1) \<le> n div 2"
      using "1.IH" False pos by simp
    then have "2 * 2 ^ (length (bin_digits (n div 2)) - 1) \<le> n" by linarith
    moreover have "2 * (2::nat) ^ (length (bin_digits (n div 2)) - 1)
                     = 2 ^ length (bin_digits (n div 2))"
      using len by (cases "length (bin_digits (n div 2))") simp_all
    ultimately show ?thesis using False by (subst bin_digits.simps) simp
  qed
qed

lemma length_bin_digits_less:
  assumes "0 < k"
  shows "length (bin_digits n) < Suc k \<longleftrightarrow> n < 2 ^ k"
proof
  assume "length (bin_digits n) < Suc k"
  then have "(2::nat) ^ length (bin_digits n) \<le> 2 ^ k" by (intro power_increasing) simp_all
  with bin_digits_upper [of n] show "n < 2 ^ k" by linarith
next
  assume n: "n < 2 ^ k"
  show "length (bin_digits n) < Suc k"
  proof (cases "n = 0")
    case True
    then show ?thesis using assms by (subst bin_digits.simps) simp
  next
    case False
    then have "(2::nat) ^ (length (bin_digits n) - 1) \<le> n"
      by (intro bin_digits_lower) simp
    with n have "(2::nat) ^ (length (bin_digits n) - 1) < 2 ^ k" by linarith
    then have "length (bin_digits n) - 1 < k"
      by (simp only: power_strict_increasing_iff rel_simps)
    then show ?thesis by simp
  qed
qed

lemma get_trigger_holdoff_supported:
  assumes "firmware b = Some fw" and "parse fw = Some v"
    and "parse trigger_holdoff_min_fw_version = Some vmin" and "\<not> v < vmin"
  shows "get_trigger_holdoff parse b
           = (Inr (2 ^ 26 \<le> unat (registers b 58)), b\<lparr>reg_log := reg_log b @ [RegRead 58]\<rparr>)"
proof -
  let ?n = "unat (registers b 58)"
  have len: "length (bin_digits ?n) < 27 \<longleftrightarrow> ?n < 2 ^ 26"
    using length_bin_digits_less [of 26 ?n] by simp
  show ?thesis
  proof (cases "?n < 2 ^ 26")
    case True
    then show ?thesis
      using assms len by (simp add: get_trigger_holdoff_def read_register_def bin_def)
  next
    case False
    then have l: "27 \<le> length (bin_digits ?n)" using len by simp
    then have "str_index (bin ?n) (- 27) = Inr [bin ?n ! (length (bin_digits ?n) + 2 - 27)]"
      by (simp add: str_index_def bin_def nat_diff_distrib nat_add_distrib)
    then show ?thesis
      using assms len False l
      by (simp add: get_trigger_holdoff_def read_register_def bool_of_str_def bin_def)
  qed
qed

text \<open>
  C1 at a register value whose bit 26 is clear and whose bit 27 is set, with firmware
  \<open>30.04\<close>: the getter reads the register and returns \<open>True\<close>. The character
  \<^verbatim>\<open>bin(output)[-27]\<close> is \<^verbatim>\<open>'0'\<close> there, and \<^verbatim>\<open>bool('0')\<close> is true, as it is for every
  non-empty string.
\<close>

theorem get_trigger_holdoff_true_without_bit_26:
  "get_trigger_holdoff parse_version (board_with (Some ''30.04'') 0x08000000)
     = (Inr True, (board_with (Some ''30.04'') 0x08000000)\<lparr>reg_log := [RegRead 58]\<rparr>)
   \<and> \<not> bit (0x08000000 :: 32 word) 26"
proof -
  have "\<not> ([30, 4] :: nat list) < [30, 4]" by simp
  from get_trigger_holdoff_supported [of "board_with (Some ''30.04'') 0x08000000" "''30.04''"
      parse_version "[30, 4]" "[30, 4]", OF _ _ _ this]
  show ?thesis
    by (simp add: board_with_def parse_version_examples trigger_holdoff_min_fw_version_def
          bit_iff_odd_drop_bit)
qed

text \<open>
  C7, as amended. When the firmware entry is not a string, or is a string that parses to a
  version below the parsed minimum, the getter returns \<open>False\<close> and leaves the board as it was:
  no register is read. When the firmware entry is a string that the parser rejects, the
  getter raises the parser's \<open>InvalidVersion\<close> error, again without reading a register.
\<close>

theorem get_trigger_holdoff_unsupported:
  "(firmware b = None \<longrightarrow> get_trigger_holdoff parse b = (Inr False, b))
   \<and> (\<forall>fw v vmin. firmware b = Some fw \<and> parse fw = Some v
          \<and> parse trigger_holdoff_min_fw_version = Some vmin \<and> v < vmin
        \<longrightarrow> get_trigger_holdoff parse b = (Inr False, b))
   \<and> (\<forall>fw. firmware b = Some fw \<and> parse fw = None
        \<longrightarrow> get_trigger_holdoff parse b = (Inl (InvalidVersion fw), b))"
  by (simp add: get_trigger_holdoff_def)

lemma firmware_board_with: "firmware (board_with fw v) = fw"
  by (simp add: board_with_def)

lemma parse_min_version: "parse_version trigger_holdoff_min_fw_version = Some [30, 4]"
  by (simp add: trigger_holdoff_min_fw_version_def parse_version_examples)

theorem get_trigger_holdoff_unsupported_witness:
  "get_trigger_holdoff parse_version (board_with None 0x04000000)
     = (Inr False, board_with None 0x04000000)
   \<and> get_trigger_holdoff parse_version (board_with (Some ''29.10'') 0x04000000)
     = (Inr False, board_with (Some ''29.10'') 0x04000000)
   \<and> reg_log (board_with (Some ''29.10'') 0x04000000) = []
   \<and> get_trigger_holdoff parse_version (board_with (Some ''unknown'') 0x04000000)
     = (Inl (InvalidVersion ''unknown''), board_with (Some ''unknown'') 0x04000000)"
proof -
  have lt: "([29, 10] :: nat list) < [30, 4]" by simp
  note g1 = get_trigger_holdoff_unsupported [of "board_with None 0x04000000" parse_version]
  note g2 = get_trigger_holdoff_unsupported [of "board_with (Some ''29.10'') 0x04000000" parse_version]
  note g3 = get_trigger_holdoff_unsupported [of "board_with (Some ''unknown'') 0x04000000" parse_version]
  have r1: "get_trigger_holdoff parse_version (board_with None 0x04000000)
              = (Inr False, board_with None 0x04000000)"
    using g1 by (simp only: firmware_board_with simp_thms)
  have r2: "get_trigger_holdoff parse_version (board_with (Some ''29.10'') 0x04000000)
              = (Inr False, board_with (Some ''29.10'') 0x04000000)"
    using g2 [THEN conjunct2, THEN conjunct1, rule_format, of "''29.10''" "[29, 10]" "[30, 4]"]
    by (simp only: firmware_board_with parse_version_examples parse_min_version lt simp_thms)
  have r3: "get_trigger_holdoff parse_version (board_with (Some ''unknown'') 0x04000000)
              = (Inl (InvalidVersion ''unknown''), board_with (Some ''unknown'') 0x04000000)"
    using g3 [THEN conjunct2, THEN conjunct2, rule_format, of "''unknown''"]
    by (simp only: firmware_board_with parse_version_examples simp_thms)
  have r4: "reg_log (board_with (Some ''29.10'') 0x04000000) = []"
    by (simp add: board_with_def)
  show ?thesis
    using r1 r2 r3 r4 by (intro conjI)
qed

text \<open>
  C7 as stated fails for a malformed firmware string: on \<open>unknown\<close>, which the parser
  rejects, the getter does not return \<open>False\<close>; the parser's error leaves the method.
\<close>

theorem get_trigger_holdoff_raises_on_malformed:
  "get_trigger_holdoff parse_version (board_with (Some ''unknown'') 0)
     = (Inl (InvalidVersion ''unknown''), board_with (Some ''unknown'') 0)
   \<and> parse_version ''unknown'' = None"
  by (simp add: get_trigger_holdoff_def firmware_board_with parse_version_examples)

lemma set_trigger_holdoff_absent:
  "firmware b = None \<Longrightarrow>
   set_trigger_holdoff parse value b
     = (Inl (UnsupportedFirmware trigger_holdoff_min_fw_version None), b)"
  by (simp add: set_trigger_holdoff_def)

lemma set_trigger_holdoff_malformed:
  "firmware b = Some fw \<Longrightarrow> parse fw = None \<Longrightarrow>
   set_trigger_holdoff parse value b = (Inl (InvalidVersion fw), b)"
  by (simp add: set_trigger_holdoff_def)

lemma set_trigger_holdoff_below:
  "firmware b = Some fw \<Longrightarrow> parse fw = Some v \<Longrightarrow>
   parse trigger_holdoff_min_fw_version = Some vmin \<Longrightarrow> v < vmin \<Longrightarrow>
   set_trigger_holdoff parse value b
     = (Inl (UnsupportedFirmware trigger_holdoff_min_fw_version (Some fw)), b)"
  by (simp add: set_trigger_holdoff_def)

lemma set_trigger_holdoff_supported:
  "firmware b = Some fw \<Longrightarrow> parse fw = Some v \<Longrightarrow>
   parse trigger_holdoff_min_fw_version = Some vmin \<Longrightarrow> \<not> v < vmin \<Longrightarrow>
   set_trigger_holdoff parse value b
     = (Inr (), write_register 58
          (if is_True value then registers b 58 OR push_bit 26 1
           else registers b 58 AND NOT (push_bit 26 1))
          (b\<lparr>reg_log := reg_log b @ [RegRead 58]\<rparr>))"
  by (simp add: set_trigger_holdoff_def read_register_def Let_def del: push_bit_of_1)

text \<open>
  C8. Provided the minimum version itself parses, the setter raises the unsupported-firmware
  error exactly when the firmware entry is not a string or parses below the minimum; the
  error carries the required minimum version and the firmware entry found; whenever the
  setter raises, the board is as it was (no register read, no register write); and whenever
  it returns, it has read register 58 and written it back.
\<close>

theorem set_trigger_holdoff_unsupported_iff:
  assumes "parse trigger_holdoff_min_fw_version = Some vmin"
  shows "((\<exists>required actual. fst (set_trigger_holdoff parse value b)
                                 = Inl (UnsupportedFirmware required actual))
            \<longleftrightarrow> (firmware b = None
                 \<or> (\<exists>fw v. firmware b = Some fw \<and> parse fw = Some v \<and> v < vmin)))
       \<and> (\<forall>required actual. fst (set_trigger_holdoff parse value b)
                               = Inl (UnsupportedFirmware required actual)
            \<longrightarrow> required = trigger_holdoff_min_fw_version \<and> actual = firmware b)
       \<and> (\<forall>e. fst (set_trigger_holdoff parse value b) = Inl e
            \<longrightarrow> snd (set_trigger_holdoff parse value b) = b)
       \<and> (fst (set_trigger_holdoff parse value b) = Inr ()
            \<longrightarrow> (\<exists>w. reg_log (snd (set_trigger_holdoff parse value b))
                        = reg_log b @ [RegRead 58, RegWrite 58 w]))"
proof (cases "firmware b")
  case None
  then show ?thesis by (simp add: set_trigger_holdoff_absent)
next
  case (Some fw)
  show ?thesis
  proof (cases "parse fw")
    case None
    then show ?thesis using Some by (simp add: set_trigger_holdoff_malformed)
  next
    case (Some v)
    note fw = \<open>firmware b = Some fw\<close>
    show ?thesis
    proof (cases "v < vmin")
      case True
      then show ?thesis
        using fw Some by (simp add: set_trigger_holdoff_below [OF fw Some assms True])
    next
      case False
      then show ?thesis
        using fw Some
        by (simp add: set_trigger_holdoff_supported [OF fw Some assms False] write_register_def)
    qed
  qed
qed

theorem set_trigger_holdoff_unsupported_iff_witness:
  "parse_version trigger_holdoff_min_fw_version = Some [30, 4]
   \<and> fst (set_trigger_holdoff parse_version (PyBool True) (board_with (Some ''29.10'') 0))
       = Inl (UnsupportedFirmware ''30.04'' (Some ''29.10''))
   \<and> snd (set_trigger_holdoff parse_version (PyBool True) (board_with (Some ''29.10'') 0))
       = board_with (Some ''29.10'') 0
   \<and> fst (set_trigger_holdoff parse_version (NpBool False) (board_with None 0))
       = Inl (UnsupportedFirmware ''30.04'' None)
   \<and> reg_log (snd (set_trigger_holdoff parse_version (PyBool True) (board_with (Some ''30.04'') 0)))
       = [RegRead 58, RegWrite 58 0x04000000]"
proof -
  note pm = parse_min_version
  have lt: "([29, 10] :: nat list) < [30, 4]" by simp
  let ?b = "board_with (Some ''29.10'') 0"
  note w = set_trigger_holdoff_unsupported_iff [of parse_version "[30, 4]" "PyBool True" ?b, OF pm]
  have "\<exists>fw v. firmware ?b = Some fw \<and> parse_version fw = Some v \<and> v < [30, 4]"
    using lt parse_version_examples(2) firmware_board_with by blast
  with w obtain required actual where
    e1: "fst (set_trigger_holdoff parse_version (PyBool True) ?b) = Inl (UnsupportedFirmware required actual)"
    by blast
  with w have "required = trigger_holdoff_min_fw_version" and "actual = firmware ?b"
    by blast+
  with e1 have r1: "fst (set_trigger_holdoff parse_version (PyBool True) ?b)
                      = Inl (UnsupportedFirmware ''30.04'' (Some ''29.10''))"
    by (simp add: trigger_holdoff_min_fw_version_def firmware_board_with)
  with w have r1': "snd (set_trigger_holdoff parse_version (PyBool True) ?b) = ?b"
    by blast
  have r2: "fst (set_trigger_holdoff parse_version (NpBool False) (board_with None 0))
              = Inl (UnsupportedFirmware ''30.04'' None)"
    by (simp add: set_trigger_holdoff_absent firmware_board_with trigger_holdoff_min_fw_version_def)
  have ge: "\<not> ([30, 4] :: nat list) < [30, 4]" by simp
  have "set_trigger_holdoff parse_version (PyBool True) (board_with (Some ''30.04'') 0)
          = (Inr (), write_register 58
               (if is_True (PyBool True) then registers (board_with (Some ''30.04'') 0) 58 OR push_bit 26 1
                else registers (board_with (Some ''30.04'') 0) 58 AND NOT (push_bit 26 1))
               ((board_with (Some ''30.04'') 0)
                  \<lparr>reg_log := reg_log (board_with (Some ''30.04'') 0) @ [RegRead 58]\<rparr>))"
    by (rule set_trigger_holdoff_supported [OF firmware_board_with parse_version_examples(1) pm ge])
  then have r3: "reg_log (snd (set_trigger_holdoff parse_version (PyBool True) (board_with (Some ''30.04'') 0)))
       = [RegRead 58, RegWrite 58 0x04000000]"
    by (simp add: write_register_def board_with_def is_True_def)
  show ?thesis using pm r1 r1' r2 r3 by (intro conjI)
qed

lemma bit_26_set: "bit (w OR push_bit 26 (1 :: 32 word)) i \<longleftrightarrow> bit w i \<or> i = 26"
  unfolding bit_or_iff bit_push_bit_iff
  by (auto simp: bit_1_iff)

lemma bit_26_clear: "bit (w AND NOT (push_bit 26 (1 :: 32 word))) i \<longleftrightarrow> bit w i \<and> i \<noteq> 26"
  unfolding bit_and_iff bit_not_iff bit_push_bit_iff
  by (auto simp: bit_1_iff dest: bit_imp_le_length)

lemma mask_26: "push_bit 26 (1 :: 32 word) = 0x04000000"
  by simp

text \<open>
  With supported firmware the setter succeeds, whatever the value. Register 58 receives
  \<open>v OR (1 << 26)\<close> when the value is Python's \<open>True\<close> and \<open>v AND NOT (1 << 26)\<close> for every
  other value, on 32-bit words; every bit other than bit 26 is as it was, every other
  register is as it was, and the access log gains the read of register 58 and the write of
  the new value.
\<close>

lemma set_trigger_holdoff_read_modify_write:
  assumes "firmware b = Some fw" and "parse fw = Some v"
    and "parse trigger_holdoff_min_fw_version = Some vmin" and "\<not> v < vmin"
  shows "fst (set_trigger_holdoff parse value b) = Inr ()
       \<and> registers (snd (set_trigger_holdoff parse value b)) 58
           = (if is_True value then registers b 58 OR push_bit 26 1
              else registers b 58 AND NOT (push_bit 26 1))
       \<and> (\<forall>i. i \<noteq> 26 \<longrightarrow> bit (registers (snd (set_trigger_holdoff parse value b)) 58) i
                             = bit (registers b 58) i)
       \<and> bit (registers (snd (set_trigger_holdoff parse value b)) 58) 26 = is_True value
       \<and> (\<forall>n. n \<noteq> 58 \<longrightarrow> registers (snd (set_trigger_holdoff parse value b)) n = registers b n)
       \<and> reg_log (snd (set_trigger_holdoff parse value b))
           = reg_log b @ [RegRead 58,
               RegWrite 58 (registers (snd (set_trigger_holdoff parse value b)) 58)]"
proof -
  note run = set_trigger_holdoff_supported [OF assms]
  have new: "registers (snd (set_trigger_holdoff parse value b)) 58
           = (if is_True value then registers b 58 OR push_bit 26 1
              else registers b 58 AND NOT (push_bit 26 1))"
    unfolding run by (simp add: write_register_def del: push_bit_of_1)
  have ok: "fst (set_trigger_holdoff parse value b) = Inr ()"
    unfolding run by simp
  have others: "\<forall>n. n \<noteq> 58 \<longrightarrow> registers (snd (set_trigger_holdoff parse value b)) n = registers b n"
    unfolding run by (simp add: write_register_def)
  have log: "reg_log (snd (set_trigger_holdoff parse value b))
           = reg_log b @ [RegRead 58,
               RegWrite 58 (registers (snd (set_trigger_holdoff parse value b)) 58)]"
    unfolding run by (simp add: write_register_def)
  have bits: "(\<forall>i. i \<noteq> 26 \<longrightarrow> bit (registers (snd (set_trigger_holdoff parse value b)) 58) i
                             = bit (registers b 58) i)
       \<and> bit (registers (snd (set_trigger_holdoff parse value b)) 58) 26 = is_True value"
  proof (cases "is_True value")
    case True
    then show ?thesis by (simp only: new if_True bit_26_set) (auto dest: bit_imp_le_length)
  next
    case False
    then show ?thesis by (simp only: new if_False bit_26_clear) (auto dest: bit_imp_le_length)
  qed
  show ?thesis
    using ok new bits others log by (intro conjI) blast+
qed

lemma set_trigger_holdoff_python_bool:
  "registers (snd (set_trigger_holdoff parse_version (PyBool True) (board_with (Some ''30.04'') 0x00000000))) 58
     = 0x04000000
   \<and> registers (snd (set_trigger_holdoff parse_version (PyBool False) (board_with (Some ''30.04'') 0x04000000))) 58
     = 0x00000000
   \<and> registers (snd (set_trigger_holdoff parse_version (PyBool False) (board_with (Some ''31.0'') 0xFFFFFFFF))) 58
     = 0xFBFFFFFF"
proof -
  have ge: "\<not> ([30, 4] :: nat list) < [30, 4]" "\<not> ([31] :: nat list) < [30, 4]" by simp_all
  note pm = parse_min_version
  have r: "\<And>fw v. registers (board_with fw v) 58 = v" by (simp add: board_with_def)
  note a = set_trigger_holdoff_read_modify_write
      [OF firmware_board_with [where v = "0x00000000"] parse_version_examples(1) pm ge(1),
       of "PyBool True", THEN conjunct2, THEN conjunct1]
  note b = set_trigger_holdoff_read_modify_write
      [OF firmware_board_with [where v = "0x04000000"] parse_version_examples(1) pm ge(1),
       of "PyBool False", THEN conjunct2, THEN conjunct1]
  note c = set_trigger_holdoff_read_modify_write
      [OF firmware_board_with [where v = "0xFFFFFFFF"] parse_version_examples(3) pm ge(2),
       of "PyBool False", THEN conjunct2, THEN conjunct1]
  show ?thesis
    using a b c by (simp add: r is_True_def)
qed

text \<open>
  C9 at numpy's \<open>True\<close>, which the validator admits. With firmware \<open>30.04\<close> the setter
  succeeds and takes the branch that clears: from register value \<open>0x00000000\<close> it writes
  \<open>0x00000000\<close> where \<open>v OR (1 << 26)\<close> is \<open>0x04000000\<close>, and from \<open>0x04000000\<close> it writes
  \<open>0x00000000\<close>, switching off a holdoff that was on.
\<close>

theorem set_trigger_holdoff_clears_on_numpy_True:
  "truth (NpBool True)
   \<and> fst (set_trigger_holdoff parse_version (NpBool True) (board_with (Some ''30.04'') 0x00000000))
       = Inr ()
   \<and> registers (snd (set_trigger_holdoff parse_version (NpBool True)
                       (board_with (Some ''30.04'') 0x00000000))) 58
       = 0x00000000
   \<and> (0x00000000 :: 32 word) OR push_bit 26 1 = 0x04000000
   \<and> registers (snd (set_trigger_holdoff parse_version (NpBool True)
                       (board_with (Some ''30.04'') 0x04000000))) 58
       = 0x00000000"
proof -
  have ge: "\<not> ([30, 4] :: nat list) < [30, 4]" by simp
  note pm = parse_min_version
  have r: "\<And>fw v. registers (board_with fw v) 58 = v" by (simp add: board_with_def)
  note a = set_trigger_holdoff_read_modify_write
      [OF firmware_board_with [where v = "0x00000000"] parse_version_examples(1) pm ge,
       of "NpBool True"]
  note b = set_trigger_holdoff_read_modify_write
      [OF firmware_board_with [where v = "0x04000000"] parse_version_examples(1) pm ge,
       of "NpBool True", THEN conjunct2, THEN conjunct1]
  show ?thesis
    using a b by (simp add: r is_True_def)
qed

end
